theory Spec2Isabelle
  imports Complex_Main "HOL-Library.Log_Nat"
begin

section \<open>The decoding driver of wav2letter (Decode.cpp)\<close>

text \<open>
  The development embeds \<^verbatim>\<open>main\<close> of \<^verbatim>\<open>Decode.cpp\<close> from the point where the
  command line flags are final (line 111) to the end of the decoding phase (line 456).
  Flags are a record, the constants of \<^verbatim>\<open>common/Defines.h\<close> are a record of
  parameters, and every class or helper whose code is in another file (the language
  model, the dictionaries, the lexicon loader, the acoustic model, the three decoders)
  is a field of a record of external collaborators. \<^verbatim>\<open>LOG(FATAL)\<close> ends the
  process: it is a status value, as are an exception that leaves \<^verbatim>\<open>main\<close> and an
  operation whose behaviour C++ leaves undefined. During decoding a fatal error is
  logged by one thread while the others run on, and the process ends only when that
  thread aborts it. The calls that matter to the order
  of construction and decoding (\<^verbatim>\<open>trie->insert\<close>, \<^verbatim>\<open>trie->smear\<close>, the decoder constructors,
  \<^verbatim>\<open>decoder->decode\<close>) are recorded, in order, in a list of events.

  Scores are single precision floats that the driver only copies; they are reals here.
  The one float computation of the driver, the number of samples per thread, is modelled
  bit-exactly in its own section.
\<close>

subsection \<open>Flags, constants and values\<close>

record Flags =
  FLAGS_lexicon :: string
  FLAGS_criterion :: string
  FLAGS_emission_dir :: string
  FLAGS_maxload :: int
  FLAGS_nthread_decoder :: int
  FLAGS_sclite :: string
  FLAGS_lmtype :: string
  FLAGS_lm :: string
  FLAGS_decodertype :: string
  FLAGS_smearing :: string

text \<open>The string constants of \<^verbatim>\<open>common/Defines.h\<close> that the driver reads.\<close>

record Defines =
  kSilToken :: string
  kBlankToken :: string
  kUnkToken :: string
  kCtcCriterion :: string
  kAsgCriterion :: string

text \<open>
  The exceptions modelled are those whose class derives from \<^verbatim>\<open>std::exception\<close>,
  as the exceptions of the standard library and of the collaborators do; the string is
  \<^verbatim>\<open>what()\<close>.
\<close>

datatype exn = StdException string

datatype fatal =
    InvalidModelType string
  | ErrorOpeningHypothesisFile
  | ErrorOpeningReferenceFile
  | ErrorOpeningLogFile
  | FailedToLoadLM string
  | InvalidLMType string
  | InvalidUnknownSymbol string
  | InvalidSmearingMode string
  | UnsupportedDecoderType string
  | ExceptionInThread int string
  | InvalidNthreadDecoder

datatype undefined_behaviour =
    FloatToIntOutOfRange
  | ResultsIndexOutOfBounds int int

datatype status =
    Running
  | Finished
  | Fatal fatal
  | Terminated exn
  | Undefined undefined_behaviour

datatype CriterionType = ASG | CTC

datatype SmearingMode = Smearing_NONE | Smearing_MAX | Smearing_LOGADD

record DecoderOptions =
  criterionType :: CriterionType

record TrieLabel =
  lmIndex :: int
  wordIndex :: int

record Sample =
  emission :: "real list"
  wordTarget :: "string list"
  tokenTarget :: "int list"
  sampleId :: string
  emissionT :: int

text \<open>
  \<^verbatim>\<open>EmissionSet\<close> holds parallel vectors, one entry per sample; the forward pass
  (lines 139-173) appends to all of them together, so a sample is one record here.
\<close>

record EmissionSet =
  samples :: "Sample list"
  emissionN :: int
  transition :: "real list"

record DecodeResult =
  res_score :: real
  res_words :: "int list"
  res_tokens :: "int list"

record Dictionary =
  indexSize :: int
  getIndex :: "string \<Rightarrow> int"
  getToken :: "int \<Rightarrow> string"

text \<open>The abstract language model: \<^verbatim>\<open>index\<close>, \<^verbatim>\<open>start\<close>, \<^verbatim>\<open>score\<close>.\<close>

record 's LM =
  lm_index :: "string \<Rightarrow> int"
  lm_start :: "bool \<Rightarrow> 's"
  lm_score :: "'s \<Rightarrow> int \<Rightarrow> 's \<times> real"

type_synonym LexiconMap = "(string \<times> string list list) list"

subsection \<open>The lexicon trie\<close>

text \<open>
  Modelled from the spec: the class \<^verbatim>\<open>Trie\<close> of \<^verbatim>\<open>decoder/Trie.h\<close> is not among the
  sources. A node owns its labels, each with its score, in insertion order, and a
  mapping from token index to child. \<^verbatim>\<open>insert\<close> walks or creates one node per token
  and appends the label and score to the last node; a zero-length sequence is rejected.
  \<^verbatim>\<open>child\<close> looks one token up and answers \<open>None\<close> for a missing child. Smearing is
  recorded as the mode it ran with; the per-node smeared score is not modelled.
\<close>

datatype TrieNode =
  TrieNode (labels: "(TrieLabel \<times> real) list") (children: "int \<Rightarrow> TrieNode option")

text \<open>
  Modelled from the spec: a trie is built for a number of children per node and the
  index of the root's token (the arguments of line 276); \<^verbatim>\<open>Trie.h\<close> is not among the
  sources.
\<close>

record Trie =
  maxChildren :: int
  rootIdx :: int
  trie_root :: TrieNode
  smeared :: "SmearingMode option"

definition emptyNode :: TrieNode where
  "emptyNode = TrieNode [] (\<lambda>_. None)"

definition newTrie :: "int \<Rightarrow> int \<Rightarrow> Trie" where
  "newTrie n r = \<lparr>maxChildren = n, rootIdx = r, trie_root = emptyNode, smeared = None\<rparr>"

text \<open>
  Modelled from the spec: \<^verbatim>\<open>insert(tokenSequence, label, score)\<close> walks or creates
  the nodes for each token of the sequence, in order, and appends the label with its
  score to the label list of the final node (\<^verbatim>\<open>Trie.cpp\<close> is not among the sources).
\<close>

fun insertNode :: "int list \<Rightarrow> TrieLabel \<Rightarrow> real \<Rightarrow> TrieNode \<Rightarrow> TrieNode" where
  "insertNode [] l sc (TrieNode ls ch) = TrieNode (ls @ [(l, sc)]) ch"
| "insertNode (tok # toks) l sc (TrieNode ls ch) =
     TrieNode ls
       (ch(tok := Some (insertNode toks l sc
                          (case ch tok of None \<Rightarrow> emptyNode | Some c \<Rightarrow> c))))"

text \<open>
  Modelled from the spec: inserting a zero-length token sequence is rejected; the
  rejection is a \<^verbatim>\<open>std::exception\<close>, whose message is not given by the spec.
\<close>

definition trie_insert :: "Trie \<Rightarrow> int list \<Rightarrow> TrieLabel \<Rightarrow> real \<Rightarrow> exn + Trie" where
  "trie_insert t toks l sc =
     (if toks = [] then Inl (StdException ''[Trie] empty token sequence'')
      else Inr (t\<lparr>trie_root := insertNode toks l sc (trie_root t)\<rparr>))"

text \<open>
  Modelled from the spec: \<^verbatim>\<open>child(token)\<close> is a lookup that answers null when the
  child is missing; a search follows the children along a token sequence.
\<close>

definition child :: "TrieNode \<Rightarrow> int \<Rightarrow> TrieNode option" where
  "child n tok = children n tok"

fun searchNode :: "TrieNode \<Rightarrow> int list \<Rightarrow> TrieNode option" where
  "searchNode n [] = Some n"
| "searchNode n (tok # toks) =
     (case child n tok of None \<Rightarrow> None | Some c \<Rightarrow> searchNode c toks)"

definition trie_search :: "Trie \<Rightarrow> int list \<Rightarrow> TrieNode option" where
  "trie_search t toks = searchNode (trie_root t) toks"

text \<open>The labels, with their scores, of the node a token sequence leads to, if any.\<close>

definition labels_at :: "TrieNode \<Rightarrow> int list \<Rightarrow> (TrieLabel \<times> real) list" where
  "labels_at n toks = (case searchNode n toks of None \<Rightarrow> [] | Some m \<Rightarrow> labels m)"

text \<open>
  Modelled from the spec: \<^verbatim>\<open>smear(mode)\<close> changes no label list and no child of the
  trie; only the mode it ran with is kept.
\<close>

definition trie_smear :: "Trie \<Rightarrow> SmearingMode \<Rightarrow> Trie" where
  "trie_smear t m = t\<lparr>smeared := Some m\<rparr>"

subsection \<open>Decoders and external collaborators\<close>

text \<open>
  A decoder object is the tuple of arguments its constructor received, in the order of
  the constructor calls of lines 319-343. A \<^verbatim>\<open>shared_ptr\<close> that may be null is an
  option.
\<close>

datatype 's Decoder =
    WordLMDecoder DecoderOptions "Trie option" "'s LM" int int "TrieLabel option" "real list"
  | TokenLMDecoder DecoderOptions "Trie option" "'s LM" int int "TrieLabel option" "real list"
      "(int \<times> int) list"
  | LexiconFreeDecoder DecoderOptions "'s LM" int int "real list" "(int \<times> int) list"

fun decoderTransition :: "'s Decoder \<Rightarrow> real list" where
  "decoderTransition (WordLMDecoder opt tr lm sil blank unk trn) = trn"
| "decoderTransition (TokenLMDecoder opt tr lm sil blank unk trn m) = trn"
| "decoderTransition (LexiconFreeDecoder opt lm sil blank trn m) = trn"

text \<open>
  What the code outside \<^verbatim>\<open>Decode.cpp\<close> computes. \<open>KenLM\<close> is the constructor
  expression \<^verbatim>\<open>KenLM(FLAGS_lm)\<close>, which may throw; \<open>loadWords\<close> and
  \<open>wordDict\<close> are the lexicon and word dictionary read when \<^verbatim>\<open>FLAGS_lexicon\<close> is
  set; \<open>datasetSamples\<close> are the samples of the dataset after the forward pass, each
  with the number of classes \<^verbatim>\<open>N\<close> of its emission; \<open>criterionParam\<close> is
  \<^verbatim>\<open>criterion->param(0)\<close>; \<open>loadedEmissionSet\<close> is what the serializer reads from
  the emission file; \<open>newDecoder\<close> tells whether a decoder constructor throws, and
  \<open>decode\<close> is \<^verbatim>\<open>decoder->decode(emission.data(), T, N)\<close>; \<open>cleanup\<close> stands for
  the helpers that turn the first result into words and letters and update the meters
  (lines 370-419), which may throw as well.
\<close>

record 's Externals =
  KenLM :: "string \<Rightarrow> exn + 's LM"
  tokenDict :: Dictionary
  wordDict :: Dictionary
  loadWords :: LexiconMap
  tokens2Tensor :: "string list \<Rightarrow> int list"
  datasetSamples :: "(Sample \<times> int) list"
  criterionParam :: "real list"
  loadedEmissionSet :: EmissionSet
  hypOpens :: bool
  refOpens :: bool
  logOpens :: bool
  newDecoder :: "'s Decoder \<Rightarrow> exn option"
  decode :: "'s Decoder \<Rightarrow> real list \<Rightarrow> int \<Rightarrow> int \<Rightarrow> exn + DecodeResult list"
  cleanup :: "DecodeResult \<Rightarrow> Sample \<Rightarrow> exn option"

datatype 's event =
    TrieInsert "int list" TrieLabel real
  | TrieSmear SmearingMode
  | NewDecoder int "'s Decoder"
  | DecodeCall int int
  | SliceStats int int

fun isTrieInsert :: "'s event \<Rightarrow> bool" where
  "isTrieInsert (TrieInsert toks l sc) = True"
| "isTrieInsert (TrieSmear m) = False"
| "isTrieInsert (NewDecoder tid d) = False"
| "isTrieInsert (DecodeCall tid s) = False"
| "isTrieInsert (SliceStats tid n) = False"

fun isTrieSmear :: "'s event \<Rightarrow> bool" where
  "isTrieSmear (TrieInsert toks l sc) = False"
| "isTrieSmear (TrieSmear m) = True"
| "isTrieSmear (NewDecoder tid d) = False"
| "isTrieSmear (DecodeCall tid s) = False"
| "isTrieSmear (SliceStats tid n) = False"

text \<open>The labels and scores that a list of calls inserts with a given token sequence.\<close>

fun inserted_at :: "'s event list \<Rightarrow> int list \<Rightarrow> (TrieLabel \<times> real) list" where
  "inserted_at [] toks = []"
| "inserted_at (TrieInsert toks' l sc # evs) toks =
     (if toks' = toks then (l, sc) # inserted_at evs toks else inserted_at evs toks)"
| "inserted_at (e # evs) toks = inserted_at evs toks"

subsection \<open>Single precision arithmetic of the samples-per-thread computation\<close>

text \<open>
  Lines 181-182 compute \<^verbatim>\<open>std::ceil(nSample / static_cast<float>(FLAGS_nthread_decoder))\<close>:
  both integers become IEEE 754 single precision floats, the quotient is rounded to
  single precision, and the ceiling is converted back to \<^verbatim>\<open>int\<close>. A non-negative
  finite float is \<open>mantissa * 2 ^ exponent\<close>; every operation rounds the exact
  result to a 24 bit significand, to nearest, ties to even. The values met here lie
  between \<open>2 ^ -63\<close> and \<open>2 ^ 63\<close>, far from overflow and from the subnormal range.
\<close>

datatype float32 = Float32 (mantissa: int) (exponent: int)

definition round_nearest_even :: "int \<Rightarrow> int \<Rightarrow> int" where
  "round_nearest_even num den =
     (let q = num div den; r = num mod den
      in if 2 * r < den then q
         else if den < 2 * r then q + 1
         else if even q then q else q + 1)"

text \<open>\<^verbatim>\<open>static_cast<float>(n)\<close> for \<open>0 \<le> n\<close>: exact up to 24 bits, rounded beyond.\<close>

definition float_of_int :: "int \<Rightarrow> float32" where
  "float_of_int n =
     (let k = bitlen n
      in if k \<le> 24 then Float32 n 0
         else Float32 (round_nearest_even n (2 ^ nat (k - 24))) (k - 24))"

definition scale_num :: "int \<Rightarrow> int \<Rightarrow> int" where
  "scale_num a e = (if e < 0 then a * 2 ^ nat (- e) else a)"

definition scale_den :: "int \<Rightarrow> int \<Rightarrow> int" where
  "scale_den b e = (if e < 0 then b else b * 2 ^ nat e)"

text \<open>
  The quotient of two positive floats: the exponent \<open>e\<close> is the one that puts the exact
  quotient of the mantissas, divided by \<open>2 ^ e\<close>, between \<open>2 ^ 23\<close> and \<open>2 ^ 24\<close>.
\<close>

definition float_div :: "float32 \<Rightarrow> float32 \<Rightarrow> float32" where
  "float_div x y =
     (if mantissa x = 0 then Float32 0 0
      else
        let e0 = bitlen (mantissa x) - bitlen (mantissa y) - 24;
            e = (if scale_num (mantissa x) e0 div scale_den (mantissa y) e0 < 2 ^ 24
                 then e0 else e0 + 1)
        in Float32 (round_nearest_even (scale_num (mantissa x) e) (scale_den (mantissa y) e))
             (e + exponent x - exponent y))"

text \<open>\<^verbatim>\<open>std::ceil\<close>, then the conversion of the integral result to \<^verbatim>\<open>int\<close>.\<close>

definition float_ceil_to_int :: "float32 \<Rightarrow> int" where
  "float_ceil_to_int x =
     (if 0 \<le> exponent x then mantissa x * 2 ^ nat (exponent x)
      else - ((- mantissa x) div 2 ^ nat (- exponent x)))"

definition nSamplePerThread :: "int \<Rightarrow> int \<Rightarrow> int" where
  "nSamplePerThread nSample nthread =
     float_ceil_to_int (float_div (float_of_int nSample) (float_of_int nthread))"

subsection \<open>Emissions (lines 128-183)\<close>

text \<open>The loop over the dataset stops when \<^verbatim>\<open>++cnt\<close> reaches \<^verbatim>\<open>FLAGS_maxload\<close>.\<close>

fun forward_loop :: "int \<Rightarrow> int \<Rightarrow> (Sample \<times> int) list \<Rightarrow> (Sample \<times> int) list" where
  "forward_loop maxload cnt [] = []"
| "forward_loop maxload cnt (x # xs) =
     x # (if cnt + 1 = maxload then [] else forward_loop maxload (cnt + 1) xs)"

definition createEmissionSet :: "Flags \<Rightarrow> Defines \<Rightarrow> 's Externals \<Rightarrow> EmissionSet" where
  "createEmissionSet fl df ex =
     (if FLAGS_emission_dir fl = [] then
        (let out = forward_loop (FLAGS_maxload fl) 0 (datasetSamples ex)
         in \<lparr>samples = map fst out,
             emissionN = (if out = [] then 0 else snd (last out)),
             transition = (if FLAGS_criterion fl = kAsgCriterion df
                           then criterionParam ex else [])\<rparr>)
      else loadedEmissionSet ex)"

definition count_samples :: "Flags \<Rightarrow> EmissionSet \<Rightarrow> int" where
  "count_samples fl es =
     (let n = int (length (samples es))
      in if 0 < FLAGS_maxload fl then min n (FLAGS_maxload fl) else n)"

subsection \<open>Construction (lines 185-310)\<close>

text \<open>
  With \<^verbatim>\<open>FLAGS_nthread_decoder = 0\<close> the quotient of line 182 is infinite or not a
  number and its conversion to \<^verbatim>\<open>int\<close> is undefined; with a negative value the
  counter vectors of lines 187-192 are asked for a size beyond \<^verbatim>\<open>max_size()\<close> and
  their constructor throws outside any handler.
\<close>

definition prepare_counters :: "Flags \<Rightarrow> status + unit" where
  "prepare_counters fl =
     (if FLAGS_nthread_decoder fl = 0 then Inl (Undefined FloatToIntOutOfRange)
      else if FLAGS_nthread_decoder fl < 0
      then Inl (Terminated (StdException ''std::length_error''))
      else Inr ())"

definition prepare_criterion :: "Flags \<Rightarrow> Defines \<Rightarrow> status + CriterionType" where
  "prepare_criterion fl df =
     (if FLAGS_criterion fl = kCtcCriterion df then Inr CTC
      else if FLAGS_criterion fl \<noteq> kAsgCriterion df
      then Inl (Fatal (InvalidModelType (FLAGS_criterion fl)))
      else Inr ASG)"

definition open_logs :: "Flags \<Rightarrow> 's Externals \<Rightarrow> status + unit" where
  "open_logs fl ex =
     (if FLAGS_sclite fl \<noteq> [] then
        (if \<not> hypOpens ex then Inl (Fatal ErrorOpeningHypothesisFile)
         else if \<not> refOpens ex then Inl (Fatal ErrorOpeningReferenceFile)
         else if \<not> logOpens ex then Inl (Fatal ErrorOpeningLogFile)
         else Inr ())
      else Inr ())"

text \<open>
  \<^verbatim>\<open>std::make_shared<T>(args)\<close> returns a pointer that owns the new object, or
  leaves by the exception the allocation or the constructor throws.
\<close>

definition make_shared :: "exn + 'a \<Rightarrow> exn + 'a option" where
  "make_shared r = (case r of Inl e \<Rightarrow> Inl e | Inr obj \<Rightarrow> Inr (Some obj))"

definition build_lm :: "Flags \<Rightarrow> 's Externals \<Rightarrow> status + 's LM" where
  "build_lm fl ex =
     (if FLAGS_lmtype fl = ''kenlm'' then
        (case make_shared (KenLM ex (FLAGS_lm fl)) of
           Inl e \<Rightarrow> Inl (Terminated e)
         | Inr lm \<Rightarrow>
             (case lm of
                None \<Rightarrow> Inl (Fatal (FailedToLoadLM (FLAGS_lm fl)))
              | Some l \<Rightarrow> Inr l))
      else Inl (Fatal (InvalidLMType (FLAGS_lmtype fl))))"

definition check_tokens :: "Defines \<Rightarrow> status + unit" where
  "check_tokens df =
     (if length (kSilToken df) \<noteq> 1 then Inl (Fatal (InvalidUnknownSymbol (kSilToken df)))
      else if length (kBlankToken df) \<noteq> 1
      then Inl (Fatal (InvalidUnknownSymbol (kBlankToken df)))
      else Inr ())"

text \<open>The label and score of a word (lines 281-287).\<close>

definition word_label :: "Flags \<Rightarrow> 's Externals \<Rightarrow> 's LM \<Rightarrow> string \<Rightarrow> TrieLabel \<times> real" where
  "word_label fl ex lm word =
     (let start_state = lm_start lm False;
          (lmIdx, score) =
            (if FLAGS_decodertype fl = ''wrd''
             then (lm_index lm word, snd (lm_score lm start_state (lm_index lm word)))
             else (- 1, - 1))
      in (\<lparr>lmIndex = lmIdx, wordIndex = getIndex (wordDict ex) word\<rparr>, score))"

text \<open>The inner loop (lines 288-294): one insertion per pronunciation of the word.\<close>

fun plant_word ::
  "'s Externals \<Rightarrow> TrieLabel \<times> real \<Rightarrow> string list list \<Rightarrow> Trie \<Rightarrow> 's event list \<times> (exn + Trie)"
where
  "plant_word ex ls [] t = ([], Inr t)"
| "plant_word ex ls (tokens # rest) t =
     (let tokensTensor = tokens2Tensor ex tokens;
          ev = TrieInsert tokensTensor (fst ls) (snd ls)
      in case trie_insert t tokensTensor (fst ls) (snd ls) of
           Inl e \<Rightarrow> ([ev], Inl e)
         | Inr t' \<Rightarrow> (case plant_word ex ls rest t' of (evs, r) \<Rightarrow> (ev # evs, r)))"

text \<open>The outer loop (lines 280-295) over the entries of the lexicon.\<close>

fun plant_lexicon ::
  "Flags \<Rightarrow> 's Externals \<Rightarrow> 's LM \<Rightarrow> LexiconMap \<Rightarrow> Trie \<Rightarrow> 's event list \<times> (exn + Trie)"
where
  "plant_lexicon fl ex lm [] t = ([], Inr t)"
| "plant_lexicon fl ex lm (it # rest) t =
     (case plant_word ex (word_label fl ex lm (fst it)) (snd it) t of
        (evs, Inl e) \<Rightarrow> (evs, Inl e)
      | (evs, Inr t') \<Rightarrow>
          (case plant_lexicon fl ex lm rest t' of (evs', r) \<Rightarrow> (evs @ evs', r)))"

text \<open>The insertion calls the two loops make when no insertion is rejected.\<close>

definition word_inserts :: "'s Externals \<Rightarrow> TrieLabel \<times> real \<Rightarrow> string list list \<Rightarrow> 's event list" where
  "word_inserts ex ls prons =
     map (\<lambda>tokens. TrieInsert (tokens2Tensor ex tokens) (fst ls) (snd ls)) prons"

definition lexicon_inserts ::
  "Flags \<Rightarrow> 's Externals \<Rightarrow> 's LM \<Rightarrow> LexiconMap \<Rightarrow> 's event list" where
  "lexicon_inserts fl ex lm lxc =
     concat (map (\<lambda>it. word_inserts ex (word_label fl ex lm (fst it)) (snd it)) lxc)"

definition smear_mode :: "Flags \<Rightarrow> fatal + SmearingMode" where
  "smear_mode fl =
     (if FLAGS_smearing fl = ''logadd'' then Inr Smearing_LOGADD
      else if FLAGS_smearing fl = ''max'' then Inr Smearing_MAX
      else if FLAGS_smearing fl \<noteq> ''none''
      then Inl (InvalidSmearingMode (FLAGS_smearing fl))
      else Inr Smearing_NONE)"

definition build_trie ::
  "Flags \<Rightarrow> Defines \<Rightarrow> 's Externals \<Rightarrow> 's LM \<Rightarrow> int \<Rightarrow> int
     \<Rightarrow> 's event list \<times> (status + Trie option \<times> TrieLabel option)"
where
  "build_trie fl df ex lm silIdx unkIdx =
     (if FLAGS_lexicon fl \<noteq> [] then
        (case plant_lexicon fl ex lm (loadWords ex)
                (newTrie (indexSize (tokenDict ex)) silIdx) of
           (evs, Inl e) \<Rightarrow> (evs, Inl (Terminated e))
         | (evs, Inr t) \<Rightarrow>
             (let unk = \<lparr>lmIndex = unkIdx, wordIndex = getIndex (wordDict ex) (kUnkToken df)\<rparr>
              in case smear_mode fl of
                   Inl f \<Rightarrow> (evs, Inl (Fatal f))
                 | Inr m \<Rightarrow> (evs @ [TrieSmear m], Inr (Some (trie_smear t m), Some unk))))
      else ([], Inr (None, None)))"

text \<open>What the construction leaves to the workers.\<close>

record 's Context =
  c_lm :: "'s LM"
  c_trie :: "Trie option"
  c_unk :: "TrieLabel option"
  c_silIdx :: int
  c_blankIdx :: int
  c_transition :: "real list"
  c_decoderOpt :: DecoderOptions
  c_emissionSet :: EmissionSet
  c_nSample :: int
  c_nSamplePerThread :: int

definition construct ::
  "Flags \<Rightarrow> Defines \<Rightarrow> 's Externals \<Rightarrow> 's event list \<times> (status + 's Context)"
where
  "construct fl df ex =
     (let emissionSet = createEmissionSet fl df ex;
          nSample = count_samples fl emissionSet
      in case prepare_counters fl of
           Inl st \<Rightarrow> ([], Inl st)
         | Inr _ \<Rightarrow>
       (case prepare_criterion fl df of
           Inl st \<Rightarrow> ([], Inl st)
         | Inr ct \<Rightarrow>
       (case open_logs fl ex of
           Inl st \<Rightarrow> ([], Inl st)
         | Inr _ \<Rightarrow>
       (case build_lm fl ex of
           Inl st \<Rightarrow> ([], Inl st)
         | Inr lm \<Rightarrow>
       (case check_tokens df of
           Inl st \<Rightarrow> ([], Inl st)
         | Inr _ \<Rightarrow>
       (let silIdx = getIndex (tokenDict ex) (kSilToken df);
            blankIdx = (if FLAGS_criterion fl = kCtcCriterion df
                        then getIndex (tokenDict ex) (kBlankToken df) else - 1);
            unkIdx = lm_index lm (kUnkToken df)
        in case build_trie fl df ex lm silIdx unkIdx of
             (evs, Inl st) \<Rightarrow> (evs, Inl st)
           | (evs, Inr (tr, unk)) \<Rightarrow>
               (evs, Inr \<lparr>c_lm = lm, c_trie = tr, c_unk = unk, c_silIdx = silIdx,
                          c_blankIdx = blankIdx,
                          c_transition = transition emissionSet,
                          c_decoderOpt = \<lparr>criterionType = ct\<rparr>,
                          c_emissionSet = emissionSet, c_nSample = nSample,
                          c_nSamplePerThread =
                            nSamplePerThread nSample (FLAGS_nthread_decoder fl)\<rparr>)))))))"

subsection \<open>Decoding (lines 312-456)\<close>

record Slice =
  w_tid :: int
  w_start :: int
  w_end :: int

text \<open>The decoder a worker builds (lines 316-349).\<close>

definition buildDecoder :: "Flags \<Rightarrow> 's Externals \<Rightarrow> 's Context \<Rightarrow> fatal + 's Decoder" where
  "buildDecoder fl ex c =
     (if FLAGS_decodertype fl = ''wrd'' then
        Inr (WordLMDecoder (c_decoderOpt c) (c_trie c) (c_lm c) (c_silIdx c) (c_blankIdx c)
               (c_unk c) (c_transition c))
      else if FLAGS_decodertype fl = ''tkn'' then
        (let lmIndMap = map (\<lambda>i. (i, lm_index (c_lm c) (getToken (tokenDict ex) i)))
                          [0 .. indexSize (tokenDict ex) - 1]
         in if FLAGS_lexicon fl \<noteq> [] then
              Inr (TokenLMDecoder (c_decoderOpt c) (c_trie c) (c_lm c) (c_silIdx c)
                     (c_blankIdx c) (c_unk c) (c_transition c) lmIndMap)
            else
              Inr (LexiconFreeDecoder (c_decoderOpt c) (c_lm c) (c_silIdx c) (c_blankIdx c)
                     (c_transition c) lmIndMap))
      else Inl (UnsupportedDecoderType (FLAGS_decodertype fl)))"

text \<open>
  The handler of lines 430-432 catches the exception; the fatal error it logs carries
  the thread id and the message of the exception.
\<close>

definition handler :: "int \<Rightarrow> exn \<Rightarrow> fatal" where
  "handler t e = (case e of StdException msg \<Rightarrow> ExceptionInThread t msg)"

text \<open>
  Where a worker stands in \<^verbatim>\<open>runDecoder\<close>: before its decoder is built, in the loop
  with its decoder and the index of the next sample, after its slice counters are
  written, or inside \<^verbatim>\<open>LOG(FATAL)\<close>. \<^verbatim>\<open>LOG(FATAL)\<close> writes its message and then
  aborts the process from the thread that called it; between the two the other threads
  of the pool keep running. A worker that has logged a fatal error is therefore in the
  phase \<open>Aborting\<close>, and the process ends with the worker's next step.
\<close>

datatype 's Phase = Building | Decoding "'s Decoder" int | Stopped | Aborting fatal

fun isStopped :: "'s Phase \<Rightarrow> bool" where
  "isStopped Building = False"
| "isStopped (Decoding d s) = False"
| "isStopped Stopped = True"
| "isStopped (Aborting f) = False"

text \<open>
  One step of a worker: it builds its decoder, or runs one iteration of the loop of
  lines 355-424, or leaves the loop and writes its counters (lines 425-429), or aborts
  the process after it has logged a fatal error. The step yields the calls it made, the
  status of the process after it and the worker's next phase. \<^verbatim>\<open>results[0]\<close>
  (lines 367-368) is read with no test of \<^verbatim>\<open>results\<close>.
\<close>

definition workerStep ::
  "Flags \<Rightarrow> 's Externals \<Rightarrow> 's Context \<Rightarrow> Slice \<Rightarrow> 's Phase
     \<Rightarrow> 's event list \<times> status \<times> 's Phase"
where
  "workerStep fl ex c w ph =
     (case ph of
        Building \<Rightarrow>
          (case buildDecoder fl ex c of
             Inl f \<Rightarrow> ([], Running, Aborting f)
           | Inr d \<Rightarrow>
               (case newDecoder ex d of
                  Some e \<Rightarrow> ([NewDecoder (w_tid w) d], Running, Aborting (handler (w_tid w) e))
                | None \<Rightarrow> ([NewDecoder (w_tid w) d], Running, Decoding d (w_start w))))
      | Decoding d s \<Rightarrow>
          (if s < w_end w then
             (let smp = samples (c_emissionSet c) ! nat s
              in case decode ex d (emission smp) (emissionT smp)
                        (emissionN (c_emissionSet c)) of
                   Inl e \<Rightarrow> ([DecodeCall (w_tid w) s], Running, Aborting (handler (w_tid w) e))
                 | Inr results \<Rightarrow>
                     (case results of
                        [] \<Rightarrow>
                          ([DecodeCall (w_tid w) s],
                           Undefined (ResultsIndexOutOfBounds (w_tid w) s), Decoding d s)
                      | r # rs \<Rightarrow>
                          (case cleanup ex r smp of
                             Some e \<Rightarrow>
                               ([DecodeCall (w_tid w) s], Running,
                                Aborting (handler (w_tid w) e))
                           | None \<Rightarrow>
                               ([DecodeCall (w_tid w) s], Running, Decoding d (s + 1)))))
           else ([SliceStats (w_tid w) (w_end w - w_start w)], Running, Stopped))
      | Stopped \<Rightarrow> ([], Running, Stopped)
      | Aborting f \<Rightarrow> ([], Fatal f, Aborting f))"

text \<open>The loop of lines 441-448 that hands one slice to each thread of the pool.\<close>

function spread :: "int \<Rightarrow> int \<Rightarrow> int \<Rightarrow> int \<Rightarrow> Slice list" where
  "spread i nthread per nSample =
     (if i < nthread then
        (if nSample \<le> i * per then []
         else \<lparr>w_tid = i, w_start = i * per, w_end = min ((i + 1) * per) nSample\<rparr>
                # spread (i + 1) nthread per nSample)
      else [])"
  by pat_completeness auto
termination
  by (relation "measure (\<lambda>(i, nthread, per, nSample). nat (nthread - i))") auto

declare spread.simps [simp del]

definition startThreads :: "Flags \<Rightarrow> int \<Rightarrow> int \<Rightarrow> fatal + Slice list" where
  "startThreads fl nSample per =
     (if FLAGS_nthread_decoder fl = 1 then Inr [\<lparr>w_tid = 0, w_start = 0, w_end = nSample\<rparr>]
      else if 1 < FLAGS_nthread_decoder fl
      then Inr (spread 0 (FLAGS_nthread_decoder fl) per nSample)
      else Inl InvalidNthreadDecoder)"

text \<open>The sample indices of a list of slices, slice by slice, each slice in order.\<close>

definition slice_indices :: "Slice list \<Rightarrow> int list" where
  "slice_indices ws = concat (map (\<lambda>w. [w_start w .. w_end w - 1]) ws)"

text \<open>
  The process during decoding: its status, the calls made so far and the phase of each
  worker. A schedule names, step by step, the worker that runs next, so that the
  workers interleave in any order; a worker that is aborting does not hold the others
  back. Only a process that has ended (the abort has landed, or its behaviour is
  undefined) takes no step. With one thread the only worker is \<^verbatim>\<open>main\<close> itself.
\<close>

record 's Process =
  p_status :: status
  p_events :: "'s event list"
  p_phases :: "'s Phase list"

definition step ::
  "Flags \<Rightarrow> 's Externals \<Rightarrow> 's Context \<Rightarrow> Slice list \<Rightarrow> nat \<Rightarrow> 's Process \<Rightarrow> 's Process"
where
  "step fl ex c ws k p =
     (if p_status p \<noteq> Running \<or> length ws \<le> k then p
      else case workerStep fl ex c (ws ! k) (p_phases p ! k) of
             (evs, st, ph) \<Rightarrow>
               \<lparr>p_status = st, p_events = p_events p @ evs,
                p_phases = (p_phases p)[k := ph]\<rparr>)"

fun run ::
  "Flags \<Rightarrow> 's Externals \<Rightarrow> 's Context \<Rightarrow> Slice list \<Rightarrow> nat list \<Rightarrow> 's Process \<Rightarrow> 's Process"
where
  "run fl ex c ws [] p = p"
| "run fl ex c ws (k # sched) p = run fl ex c ws sched (step fl ex c ws k p)"

text \<open>
  \<^verbatim>\<open>startThreads()\<close> returns when every worker has left \<^verbatim>\<open>runDecoder\<close>; the
  statistics that follow are not modelled.
\<close>

definition finish :: "'s Process \<Rightarrow> 's Process" where
  "finish p =
     (if p_status p = Running \<and> list_all isStopped (p_phases p)
      then p\<lparr>p_status := Finished\<rparr> else p)"

definition main_run :: "Flags \<Rightarrow> Defines \<Rightarrow> 's Externals \<Rightarrow> nat list \<Rightarrow> 's Process" where
  "main_run fl df ex sched =
     (case construct fl df ex of
        (evs, Inl st) \<Rightarrow> \<lparr>p_status = st, p_events = evs, p_phases = []\<rparr>
      | (evs, Inr c) \<Rightarrow>
          (case startThreads fl (c_nSample c) (c_nSamplePerThread c) of
             Inl f \<Rightarrow> \<lparr>p_status = Fatal f, p_events = evs, p_phases = []\<rparr>
           | Inr ws \<Rightarrow>
               finish (run fl ex c ws sched
                 \<lparr>p_status = Running, p_events = evs,
                  p_phases = replicate (length ws) Building\<rparr>)))"

subsection \<open>A small configuration\<close>

text \<open>
  The constants as \<^verbatim>\<open>common/Defines.h\<close> of wav2letter sets them, a language model
  with a single state, a three letter token dictionary and a two word lexicon. They
  serve as concrete inputs below.
\<close>

definition w2l_defines :: Defines where
  "w2l_defines =
     \<lparr>kSilToken = ''|'', kBlankToken = ''#'', kUnkToken = ''<unk>'',
      kCtcCriterion = ''ctc'', kAsgCriterion = ''asg''\<rparr>"

definition unigram_lm :: "unit LM" where
  "unigram_lm =
     \<lparr>lm_index = (\<lambda>w. if w = ''ab'' then 7 else if w = ''b'' then 8 else 0),
      lm_start = (\<lambda>_. ()),
      lm_score = (\<lambda>s i. ((), if i = 7 then - 2 else - 3))\<rparr>"

definition abc_dict :: Dictionary where
  "abc_dict =
     \<lparr>indexSize = 3,
      getIndex = (\<lambda>t. if t = ''a'' then 0 else if t = ''b'' then 1 else 2),
      getToken = (\<lambda>i. if i = 0 then ''a'' else if i = 1 then ''b'' else ''|'')\<rparr>"

definition word_dict :: Dictionary where
  "word_dict =
     \<lparr>indexSize = 3,
      getIndex = (\<lambda>w. if w = ''ab'' then 0 else if w = ''b'' then 1 else 2),
      getToken = (\<lambda>i. if i = 0 then ''ab'' else if i = 1 then ''b'' else ''<unk>'')\<rparr>"

definition sample_a :: Sample where
  "sample_a =
     \<lparr>emission = [1, 0, 0], wordTarget = [''ab''], tokenTarget = [0, 1],
      sampleId = ''a'', emissionT = 1\<rparr>"

definition sample_b :: Sample where
  "sample_b =
     \<lparr>emission = [0, 1, 0], wordTarget = [''b''], tokenTarget = [1],
      sampleId = ''b'', emissionT = 1\<rparr>"

definition one_result :: DecodeResult where
  "one_result = \<lparr>res_score = 0, res_words = [], res_tokens = []\<rparr>"

definition small_ex :: "unit Externals" where
  "small_ex =
     \<lparr>KenLM = (\<lambda>path. Inr unigram_lm),
      tokenDict = abc_dict,
      wordDict = word_dict,
      loadWords = [(''ab'', [[''a'', ''b'']]), (''b'', [[''b'']])],
      tokens2Tensor = map (getIndex abc_dict),
      datasetSamples = [(sample_a, 3), (sample_b, 3)],
      criterionParam = [0, 0, 0, 0, 0, 0, 0, 0, 0],
      loadedEmissionSet = \<lparr>samples = [sample_a, sample_b], emissionN = 3, transition = [1]\<rparr>,
      hypOpens = True, refOpens = True, logOpens = True,
      newDecoder = (\<lambda>d. None),
      decode = (\<lambda>d em T N. Inr [one_result]),
      cleanup = (\<lambda>r smp. None)\<rparr>"

definition small_flags :: Flags where
  "small_flags =
     \<lparr>FLAGS_lexicon = ''lexicon.txt'', FLAGS_criterion = ''ctc'', FLAGS_emission_dir = [],
      FLAGS_maxload = - 1, FLAGS_nthread_decoder = 2, FLAGS_sclite = [],
      FLAGS_lmtype = ''kenlm'', FLAGS_lm = ''lm.bin'', FLAGS_decodertype = ''wrd'',
      FLAGS_smearing = ''max''\<rparr>"

text \<open>
  Variations: a sample with no frame, a run without lexicon on the token decoder,
  decoders that return no result or throw on an emission without frames, and a run that
  reads its emissions from a file.
\<close>

definition sample_zero :: Sample where
  "sample_zero =
     \<lparr>emission = [], wordTarget = [], tokenTarget = [], sampleId = ''z'', emissionT = 0\<rparr>"

definition lexfree_flags :: Flags where
  "lexfree_flags = small_flags\<lparr>FLAGS_lexicon := [], FLAGS_decodertype := ''tkn''\<rparr>"

definition empty_result_ex :: "unit Externals" where
  "empty_result_ex =
     small_ex\<lparr>datasetSamples := [(sample_zero, 3), (sample_b, 3)],
              decode := (\<lambda>d em T N. if T = 0 then Inr [] else Inr [one_result])\<rparr>"

definition throwing_ex :: "unit Externals" where
  "throwing_ex =
     small_ex\<lparr>datasetSamples := [(sample_zero, 3), (sample_b, 3)],
              decode := (\<lambda>d em T N. if T = 0 then Inl (StdException ''no frames'')
                                     else Inr [one_result])\<rparr>"

definition lexfree_decoder :: "unit Decoder" where
  "lexfree_decoder =
     LexiconFreeDecoder \<lparr>criterionType = CTC\<rparr> unigram_lm 2 2 [] [(0, 0), (1, 8), (2, 0)]"

definition zero_ctx :: "unit Context" where
  "zero_ctx =
     \<lparr>c_lm = unigram_lm, c_trie = None, c_unk = None, c_silIdx = 2, c_blankIdx = 2,
      c_transition = [], c_decoderOpt = \<lparr>criterionType = CTC\<rparr>,
      c_emissionSet = \<lparr>samples = [sample_zero, sample_b], emissionN = 3, transition = []\<rparr>,
      c_nSample = 2, c_nSamplePerThread = 1\<rparr>"

definition two_slices :: "Slice list" where
  "two_slices = [\<lparr>w_tid = 0, w_start = 0, w_end = 1\<rparr>, \<lparr>w_tid = 1, w_start = 1, w_end = 2\<rparr>]"

definition emission_file_flags :: Flags where
  "emission_file_flags = lexfree_flags\<lparr>FLAGS_emission_dir := ''emissions''\<rparr>"

definition stored_decoder :: "unit Decoder" where
  "stored_decoder =
     LexiconFreeDecoder \<lparr>criterionType = CTC\<rparr> unigram_lm 2 2 [1] [(0, 0), (1, 8), (2, 0)]"

text \<open>A lexicon whose word has a second, empty pronunciation.\<close>

definition empty_pron_ex :: "unit Externals" where
  "empty_pron_ex = small_ex\<lparr>loadWords := [(''ab'', [[''a'', ''b''], []])]\<rparr>"

section \<open>Properties\<close>

subsection \<open>The shape of a run\<close>

lemma construct_Inr:
  assumes "construct fl df ex = (evs, Inr c)"
  shows "prepare_counters fl = Inr () \<and>
         prepare_criterion fl df = Inr (criterionType (c_decoderOpt c)) \<and>
         open_logs fl ex = Inr () \<and>
         build_lm fl ex = Inr (c_lm c) \<and>
         check_tokens df = Inr () \<and>
         build_trie fl df ex (c_lm c) (getIndex (tokenDict ex) (kSilToken df))
            (lm_index (c_lm c) (kUnkToken df)) = (evs, Inr (c_trie c, c_unk c)) \<and>
         c_transition c = transition (createEmissionSet fl df ex) \<and>
         c_emissionSet c = createEmissionSet fl df ex \<and>
         c_nSample c = count_samples fl (createEmissionSet fl df ex) \<and>
         c_nSamplePerThread c = nSamplePerThread (c_nSample c) (FLAGS_nthread_decoder fl)"
  using assms
  by (auto simp: construct_def Let_def split: sum.splits prod.splits)

lemma construct_Inl:
  assumes "construct fl df ex = (evs, Inl st)"
  shows "(evs = [] \<and> (prepare_counters fl = Inl st \<or> prepare_criterion fl df = Inl st \<or>
            open_logs fl ex = Inl st \<or> build_lm fl ex = Inl st \<or> check_tokens df = Inl st)) \<or>
         (\<exists>lm. build_lm fl ex = Inr lm \<and> check_tokens df = Inr () \<and>
            build_trie fl df ex lm (getIndex (tokenDict ex) (kSilToken df))
              (lm_index lm (kUnkToken df)) = (evs, Inl st))"
  using assms
  by (auto simp: construct_def Let_def split: sum.splits prod.splits)

lemma make_shared_not_null: "make_shared r \<noteq> Inr None"
  by (simp add: make_shared_def split: sum.splits)

lemma build_lm_status:
  "build_lm fl ex = Inl st \<Longrightarrow>
     (\<exists>e. st = Terminated e \<and> KenLM ex (FLAGS_lm fl) = Inl e \<and> FLAGS_lmtype fl = ''kenlm'') \<or>
     (st = Fatal (InvalidLMType (FLAGS_lmtype fl)) \<and> FLAGS_lmtype fl \<noteq> ''kenlm'')"
  by (auto simp: build_lm_def make_shared_def split: if_splits sum.splits option.splits)

lemma build_trie_status:
  "build_trie fl df ex lm sil unk = (evs, Inl st) \<Longrightarrow>
     (\<exists>e. st = Terminated e) \<or> st = Fatal (InvalidSmearingMode (FLAGS_smearing fl))"
  by (auto simp: build_trie_def smear_mode_def Let_def split: if_splits sum.splits prod.splits)

lemma prepare_counters_status:
  "prepare_counters fl = Inl st \<Longrightarrow>
     st = Undefined FloatToIntOutOfRange \<or> st = Terminated (StdException ''std::length_error'')"
  by (auto simp: prepare_counters_def split: if_splits)

lemma prepare_criterion_status:
  "prepare_criterion fl df = Inl st \<Longrightarrow> st = Fatal (InvalidModelType (FLAGS_criterion fl))"
  by (auto simp: prepare_criterion_def split: if_splits)

lemma open_logs_status:
  "open_logs fl ex = Inl st \<Longrightarrow>
     st = Fatal ErrorOpeningHypothesisFile \<or> st = Fatal ErrorOpeningReferenceFile \<or>
     st = Fatal ErrorOpeningLogFile"
  by (auto simp: open_logs_def split: if_splits)

lemma check_tokens_status:
  "check_tokens df = Inl st \<Longrightarrow>
     st = Fatal (InvalidUnknownSymbol (kSilToken df)) \<or>
     st = Fatal (InvalidUnknownSymbol (kBlankToken df))"
  by (auto simp: check_tokens_def split: if_splits)

lemma construct_failure_status:
  assumes "construct fl df ex = (evs, Inl st)"
  shows "st = Undefined FloatToIntOutOfRange \<or> (\<exists>e. st = Terminated e) \<or>
         st = Fatal (InvalidModelType (FLAGS_criterion fl)) \<or>
         st = Fatal ErrorOpeningHypothesisFile \<or> st = Fatal ErrorOpeningReferenceFile \<or>
         st = Fatal ErrorOpeningLogFile \<or>
         st = Fatal (InvalidLMType (FLAGS_lmtype fl)) \<or>
         st = Fatal (InvalidUnknownSymbol (kSilToken df)) \<or>
         st = Fatal (InvalidUnknownSymbol (kBlankToken df)) \<or>
         st = Fatal (InvalidSmearingMode (FLAGS_smearing fl))"
proof -
  from construct_Inl [OF assms] consider
      "prepare_counters fl = Inl st" | "prepare_criterion fl df = Inl st"
    | "open_logs fl ex = Inl st" | "build_lm fl ex = Inl st" | "check_tokens df = Inl st"
    | lm where "build_trie fl df ex lm (getIndex (tokenDict ex) (kSilToken df))
              (lm_index lm (kUnkToken df)) = (evs, Inl st)"
    by blast
  then show ?thesis
  proof cases
    case 1 with prepare_counters_status [of fl st] show ?thesis by blast
  next
    case 2 with prepare_criterion_status [of fl df st] show ?thesis by blast
  next
    case 3 with open_logs_status [of fl ex st] show ?thesis by blast
  next
    case 4 with build_lm_status [of fl ex st] show ?thesis by blast
  next
    case 5 with check_tokens_status [of df st] show ?thesis by blast
  next
    case 6 with build_trie_status [of fl df ex lm _ _ evs st] show ?thesis by blast
  qed
qed

lemma construct_failure_not_running:
  assumes "construct fl df ex = (evs, Inl st)"
  shows "st \<noteq> Running \<and> st \<noteq> Finished \<and> st \<noteq> Fatal (FailedToLoadLM m) \<and>
         st \<noteq> Undefined (ResultsIndexOutOfBounds t s)"
  using construct_failure_status [OF assms] by auto

lemma finish_status:
  "p_status (finish p) = p_status p \<or> (p_status p = Running \<and> p_status (finish p) = Finished)"
  by (simp add: finish_def)

lemma finish_events: "p_events (finish p) = p_events p"
  by (simp add: finish_def)

lemma main_run_cases:
  obtains
    (failed) evs st where "construct fl df ex = (evs, Inl st)"
      and "main_run fl df ex sched = \<lparr>p_status = st, p_events = evs, p_phases = []\<rparr>"
  | (no_threads) evs c f where "construct fl df ex = (evs, Inr c)"
      and "startThreads fl (c_nSample c) (c_nSamplePerThread c) = Inl f"
      and "main_run fl df ex sched = \<lparr>p_status = Fatal f, p_events = evs, p_phases = []\<rparr>"
  | (decoding) evs c ws where "construct fl df ex = (evs, Inr c)"
      and "startThreads fl (c_nSample c) (c_nSamplePerThread c) = Inr ws"
      and "main_run fl df ex sched =
             finish (run fl ex c ws sched
               \<lparr>p_status = Running, p_events = evs,
                p_phases = replicate (length ws) Building\<rparr>)"
proof (cases "construct fl df ex")
  case (Pair evs r)
  show ?thesis
  proof (cases r)
    case (Inl st)
    with Pair show ?thesis by (intro failed [of evs st]) (simp_all add: main_run_def)
  next
    case (Inr c)
    show ?thesis
    proof (cases "startThreads fl (c_nSample c) (c_nSamplePerThread c)")
      case (Inl f)
      with Pair \<open>r = Inr c\<close> show ?thesis
        by (intro no_threads [of evs c f]) (simp_all add: main_run_def)
    next
      case (Inr ws)
      with Pair \<open>r = Inr c\<close> show ?thesis
        by (intro decoding [of evs c ws]) (simp_all add: main_run_def)
    qed
  qed
qed

lemma plant_word_events:
  "plant_word ex ls prons t = (evs, r) \<Longrightarrow>
     (\<exists>n. evs = take n (word_inserts ex ls prons)) \<and>
     (\<forall>t'. r = Inr t' \<longrightarrow> evs = word_inserts ex ls prons)"
proof (induction prons arbitrary: t evs r)
  case Nil
  then show ?case by (auto simp: word_inserts_def)
next
  case (Cons tokens rest)
  show ?case
  proof (cases "trie_insert t (tokens2Tensor ex tokens) (fst ls) (snd ls)")
    case (Inl e)
    with Cons.prems have "evs = [TrieInsert (tokens2Tensor ex tokens) (fst ls) (snd ls)]" "r = Inl e"
      by (auto simp: Let_def)
    then have "evs = take 1 (word_inserts ex ls (tokens # rest))"
      by (simp add: word_inserts_def)
    with \<open>r = Inl e\<close> show ?thesis by blast
  next
    case (Inr t')
    obtain evs' r' where pw: "plant_word ex ls rest t' = (evs', r')"
      by (cases "plant_word ex ls rest t'")
    with Cons.prems Inr
    have e: "evs = TrieInsert (tokens2Tensor ex tokens) (fst ls) (snd ls) # evs'" "r = r'"
      by (auto simp: Let_def)
    from Cons.IH [OF pw] obtain n where
      n: "evs' = take n (word_inserts ex ls rest)"
      and all: "\<forall>t''. r' = Inr t'' \<longrightarrow> evs' = word_inserts ex ls rest"
      by blast
    from e n have "evs = take (Suc n) (word_inserts ex ls (tokens # rest))"
      by (simp add: word_inserts_def)
    moreover from e all have "\<forall>t''. r = Inr t'' \<longrightarrow> evs = word_inserts ex ls (tokens # rest)"
      by (simp add: word_inserts_def)
    ultimately show ?thesis by blast
  qed
qed

lemma plant_lexicon_events:
  "plant_lexicon fl ex lm lxc t = (evs, r) \<Longrightarrow>
     (\<exists>n. evs = take n (lexicon_inserts fl ex lm lxc)) \<and>
     (\<forall>t'. r = Inr t' \<longrightarrow> evs = lexicon_inserts fl ex lm lxc)"
proof (induction lxc arbitrary: t evs r)
  case Nil
  then show ?case by (auto simp: lexicon_inserts_def)
next
  case (Cons it rest)
  let ?ls = "word_label fl ex lm (fst it)"
  obtain evs1 r1 where pw: "plant_word ex ?ls (snd it) t = (evs1, r1)"
    by (cases "plant_word ex ?ls (snd it) t")
  from plant_word_events [OF pw] obtain n1 where
    n1: "evs1 = take n1 (word_inserts ex ?ls (snd it))"
    and all1: "\<forall>t'. r1 = Inr t' \<longrightarrow> evs1 = word_inserts ex ?ls (snd it)"
    by blast
  have split: "lexicon_inserts fl ex lm (it # rest) =
      word_inserts ex ?ls (snd it) @ lexicon_inserts fl ex lm rest"
    by (simp add: lexicon_inserts_def)
  show ?case
  proof (cases r1)
    case (Inl e)
    with Cons.prems pw have "evs = evs1" "r = Inl e" by auto
    with n1 have "evs = take (min n1 (length (word_inserts ex ?ls (snd it))))
                          (lexicon_inserts fl ex lm (it # rest))"
      by (simp add: split min_def)
    with \<open>r = Inl e\<close> show ?thesis by blast
  next
    case (Inr t1)
    obtain evs2 r2 where pl: "plant_lexicon fl ex lm rest t1 = (evs2, r2)"
      by (cases "plant_lexicon fl ex lm rest t1")
    with Cons.prems pw Inr have e: "evs = evs1 @ evs2" "r = r2" by auto
    from all1 Inr have full1: "evs1 = word_inserts ex ?ls (snd it)" by simp
    from Cons.IH [OF pl] obtain n2 where
      n2: "evs2 = take n2 (lexicon_inserts fl ex lm rest)"
      and all2: "\<forall>t'. r2 = Inr t' \<longrightarrow> evs2 = lexicon_inserts fl ex lm rest"
      by blast
    from e full1 n2
    have "evs = take (length (word_inserts ex ?ls (snd it)) + n2)
                  (lexicon_inserts fl ex lm (it # rest))"
      by (simp add: split)
    moreover from e full1 all2
    have "\<forall>t'. r = Inr t' \<longrightarrow> evs = lexicon_inserts fl ex lm (it # rest)"
      by (simp add: split)
    ultimately show ?thesis by blast
  qed
qed

lemma lexicon_inserts_member:
  "e \<in> set (lexicon_inserts fl ex lm lxc) \<longleftrightarrow>
     (\<exists>word prons tokens. (word, prons) \<in> set lxc \<and> tokens \<in> set prons \<and>
        e = TrieInsert (tokens2Tensor ex tokens) (fst (word_label fl ex lm word))
              (snd (word_label fl ex lm word)))"
  by (force simp: lexicon_inserts_def word_inserts_def)

lemma lexicon_inserts_all_inserts: "list_all isTrieInsert (lexicon_inserts fl ex lm lxc)"
  by (auto simp: list_all_iff lexicon_inserts_def word_inserts_def)

lemma step_events:
  "\<exists>evs'. p_events (step fl ex c ws k p) = p_events p @ evs' \<and>
      (\<forall>e\<in>set evs'. \<not> isTrieInsert e \<and> \<not> isTrieSmear e)"
  by (auto simp: step_def workerStep_def Let_def
      split: if_splits sum.splits option.splits list.splits Phase.splits prod.splits)

lemma run_events:
  "\<exists>evs'. p_events (run fl ex c ws sched p) = p_events p @ evs' \<and>
      (\<forall>e\<in>set evs'. \<not> isTrieInsert e \<and> \<not> isTrieSmear e)"
proof (induction sched arbitrary: p)
  case Nil
  show ?case by simp
next
  case (Cons k sched)
  obtain evs1 where 1: "p_events (step fl ex c ws k p) = p_events p @ evs1"
    "\<forall>e\<in>set evs1. \<not> isTrieInsert e \<and> \<not> isTrieSmear e"
    using step_events [of fl ex c ws k p] by blast
  obtain evs2 where 2: "p_events (run fl ex c ws sched (step fl ex c ws k p)) =
      p_events (step fl ex c ws k p) @ evs2"
    "\<forall>e\<in>set evs2. \<not> isTrieInsert e \<and> \<not> isTrieSmear e"
    using Cons.IH [of "step fl ex c ws k p"] by blast
  from 1 2 have "p_events (run fl ex c ws (k # sched) p) = p_events p @ (evs1 @ evs2)"
    "\<forall>e\<in>set (evs1 @ evs2). \<not> isTrieInsert e \<and> \<not> isTrieSmear e"
    by auto
  then show ?case by blast
qed

lemma build_trie_shape:
  assumes "build_trie fl df ex lm sil unk = (evs, r)"
  shows "(FLAGS_lexicon fl = [] \<and> evs = [] \<and> r = Inr (None, None)) \<or>
         (FLAGS_lexicon fl \<noteq> [] \<and>
            ((\<exists>n st. evs = take n (lexicon_inserts fl ex lm (loadWords ex)) \<and> r = Inl st \<and>
                 st \<noteq> Running \<and> st \<noteq> Finished) \<or>
             (\<exists>m t u. evs = lexicon_inserts fl ex lm (loadWords ex) @ [TrieSmear m] \<and>
                 smear_mode fl = Inr m \<and> r = Inr (Some t, Some u) \<and> smeared t = Some m)))"
proof (cases "FLAGS_lexicon fl = []")
  case True
  with assms show ?thesis by (simp add: build_trie_def)
next
  case False
  obtain pevs pr where pl:
    "plant_lexicon fl ex lm (loadWords ex) (newTrie (indexSize (tokenDict ex)) sil) = (pevs, pr)"
    by (cases "plant_lexicon fl ex lm (loadWords ex) (newTrie (indexSize (tokenDict ex)) sil)")
  from plant_lexicon_events [OF pl] obtain n where
    n: "pevs = take n (lexicon_inserts fl ex lm (loadWords ex))"
    and full: "\<forall>t'. pr = Inr t' \<longrightarrow> pevs = lexicon_inserts fl ex lm (loadWords ex)"
    by blast
  show ?thesis
  proof (cases pr)
    case (Inl e)
    with assms False pl have "evs = pevs" "r = Inl (Terminated e)"
      by (auto simp: build_trie_def)
    with n False show ?thesis by auto
  next
    case (Inr t)
    with full have pevs: "pevs = lexicon_inserts fl ex lm (loadWords ex)" by simp
    show ?thesis
    proof (cases "smear_mode fl")
      case (Inl f)
      with assms False pl Inr have "evs = pevs" "r = Inl (Fatal f)"
        by (auto simp: build_trie_def Let_def)
      with pevs False have "evs = take (length pevs) (lexicon_inserts fl ex lm (loadWords ex))"
        "r = Inl (Fatal f)" by auto
      with False show ?thesis by blast
    next
      case (Inr m)
      with assms False pl \<open>pr = Inr t\<close>
      have "evs = pevs @ [TrieSmear m]"
        "r = Inr (Some (trie_smear t m),
                  Some \<lparr>lmIndex = unk, wordIndex = getIndex (wordDict ex) (kUnkToken df)\<rparr>)"
        by (auto simp: build_trie_def Let_def)
      moreover have "smeared (trie_smear t m) = Some m" by (simp add: trie_smear_def)
      ultimately show ?thesis using False pevs Inr by blast
    qed
  qed
qed

text \<open>
  The calls of a run are those of the construction followed by those of the workers; a
  construction that fails is the whole run.
\<close>

lemma main_run_events:
  obtains cevs r devs where "construct fl df ex = (cevs, r)"
    and "p_events (main_run fl df ex sched) = cevs @ devs"
    and "\<forall>e\<in>set devs. \<not> isTrieInsert e \<and> \<not> isTrieSmear e"
    and "\<And>st. r = Inl st \<Longrightarrow> devs = [] \<and> p_status (main_run fl df ex sched) = st"
proof (cases rule: main_run_cases [of fl df ex sched])
  case (failed evs st)
  then show ?thesis by (intro that [of evs "Inl st" "[]"]) simp_all
next
  case (no_threads evs c f)
  then show ?thesis by (intro that [of evs "Inr c" "[]"]) simp_all
next
  case (decoding evs c ws)
  let ?p0 = "\<lparr>p_status = Running, p_events = evs,
               p_phases = replicate (length ws) Building\<rparr> :: 'a Process"
  obtain devs where "p_events (run fl ex c ws sched ?p0) = p_events ?p0 @ devs"
    "\<forall>e\<in>set devs. \<not> isTrieInsert e \<and> \<not> isTrieSmear e"
    using run_events [of fl ex c ws sched ?p0] by blast
  with decoding show ?thesis
    by (intro that [of evs "Inr c" devs]) (simp_all add: finish_events)
qed

lemma construct_events:
  assumes "construct fl df ex = (evs, r)"
  shows "evs = [] \<or>
         (\<exists>lm tr. build_lm fl ex = Inr lm \<and>
            build_trie fl df ex lm (getIndex (tokenDict ex) (kSilToken df))
              (lm_index lm (kUnkToken df)) = (evs, tr))"
proof (cases r)
  case (Inl st)
  with assms construct_Inl [of fl df ex evs st] show ?thesis by blast
next
  case (Inr c)
  with assms construct_Inr [of fl df ex evs c] show ?thesis by blast
qed

lemma main_run_inserts:
  assumes "TrieInsert toks l sc \<in> set (p_events (main_run fl df ex sched))"
  shows "\<exists>lm. build_lm fl ex = Inr lm \<and>
           TrieInsert toks l sc \<in> set (lexicon_inserts fl ex lm (loadWords ex))"
proof -
  obtain cevs r devs where c: "construct fl df ex = (cevs, r)"
    and ev: "p_events (main_run fl df ex sched) = cevs @ devs"
    and d: "\<forall>e\<in>set devs. \<not> isTrieInsert e \<and> \<not> isTrieSmear e"
    by (rule main_run_events [of fl df ex sched])
  from assms ev d have "TrieInsert toks l sc \<in> set cevs"
    by (metis Un_iff isTrieInsert.simps(1) set_append)
  with construct_events [OF c] obtain lm tr where lm: "build_lm fl ex = Inr lm"
    and bt: "build_trie fl df ex lm (getIndex (tokenDict ex) (kSilToken df))
              (lm_index lm (kUnkToken df)) = (cevs, tr)"
    by auto
  from build_trie_shape [OF bt] \<open>TrieInsert toks l sc \<in> set cevs\<close>
  have "TrieInsert toks l sc \<in> set (lexicon_inserts fl ex lm (loadWords ex))"
    by (auto dest: in_set_takeD)
  with lm show ?thesis by blast
qed

lemma run_not_running: "p_status p \<noteq> Running \<Longrightarrow> run fl ex c ws sched p = p"
  by (induction sched arbitrary: p) (simp_all add: step_def)

lemma step_new_decoder:
  "NewDecoder t d \<in> set (p_events (step fl ex c ws k p)) \<Longrightarrow>
     NewDecoder t d \<in> set (p_events p) \<or> buildDecoder fl ex c = Inr d"
  by (auto simp: step_def workerStep_def Let_def
      split: if_splits sum.splits option.splits list.splits Phase.splits prod.splits)

lemma run_new_decoder:
  "NewDecoder t d \<in> set (p_events (run fl ex c ws sched p)) \<Longrightarrow>
     NewDecoder t d \<in> set (p_events p) \<or> buildDecoder fl ex c = Inr d"
proof (induction sched arbitrary: p)
  case Nil
  then show ?case by simp
next
  case (Cons k sched)
  from Cons.IH [of "step fl ex c ws k p"] Cons.prems
  have "NewDecoder t d \<in> set (p_events (step fl ex c ws k p)) \<or> buildDecoder fl ex c = Inr d"
    by simp
  with step_new_decoder [of t d fl ex c ws k p] show ?case by blast
qed

lemma construct_event_kinds:
  assumes "construct fl df ex = (evs, r)"
  shows "\<forall>e\<in>set evs. isTrieInsert e \<or> isTrieSmear e"
proof -
  from construct_events [OF assms] show ?thesis
  proof
    assume "evs = []" then show ?thesis by simp
  next
    assume "\<exists>lm tr. build_lm fl ex = Inr lm \<and>
            build_trie fl df ex lm (getIndex (tokenDict ex) (kSilToken df))
              (lm_index lm (kUnkToken df)) = (evs, tr)"
    then obtain lm tr where bt: "build_trie fl df ex lm (getIndex (tokenDict ex) (kSilToken df))
              (lm_index lm (kUnkToken df)) = (evs, tr)" by blast
    have ins: "\<forall>e\<in>set (lexicon_inserts fl ex lm (loadWords ex)). isTrieInsert e"
      using lexicon_inserts_all_inserts [of fl ex lm "loadWords ex"] by (simp add: list_all_iff)
    from build_trie_shape [OF bt] ins show ?thesis
      by (auto dest: in_set_takeD)
  qed
qed

lemma main_run_new_decoder:
  assumes "NewDecoder t d \<in> set (p_events (main_run fl df ex sched))"
  shows "\<exists>evs c. construct fl df ex = (evs, Inr c) \<and> buildDecoder fl ex c = Inr d"
proof (cases rule: main_run_cases [of fl df ex sched])
  case (failed evs st)
  with assms construct_event_kinds [of fl df ex evs "Inl st"] show ?thesis by auto
next
  case (no_threads evs c f)
  with assms construct_event_kinds [of fl df ex evs "Inr c"] show ?thesis by auto
next
  case (decoding evs c ws)
  let ?p0 = "\<lparr>p_status = Running, p_events = evs,
               p_phases = replicate (length ws) Building\<rparr> :: 'a Process"
  from assms decoding have "NewDecoder t d \<in> set (p_events (run fl ex c ws sched ?p0))"
    by (simp add: finish_events)
  from run_new_decoder [OF this] construct_event_kinds [of fl df ex evs "Inr c"] decoding
  have "buildDecoder fl ex c = Inr d" by auto
  with decoding show ?thesis by blast
qed

lemma buildDecoder_transition:
  "buildDecoder fl ex c = Inr d \<Longrightarrow> decoderTransition d = c_transition c"
  by (auto simp: buildDecoder_def Let_def split: if_splits)

lemma step_no_out_of_bounds:
  assumes "\<forall>d em T N. decode ex d em T N \<noteq> Inr []"
    and "p_status p \<noteq> Undefined (ResultsIndexOutOfBounds t s)"
  shows "p_status (step fl ex c ws k p) \<noteq> Undefined (ResultsIndexOutOfBounds t s)"
  using assms
  by (auto simp: step_def workerStep_def handler_def Let_def
      split: if_splits sum.splits option.splits list.splits Phase.splits prod.splits exn.splits)

lemma run_no_out_of_bounds:
  assumes "\<forall>d em T N. decode ex d em T N \<noteq> Inr []"
    and "p_status p \<noteq> Undefined (ResultsIndexOutOfBounds t s)"
  shows "p_status (run fl ex c ws sched p) \<noteq> Undefined (ResultsIndexOutOfBounds t s)"
  using assms(2)
proof (induction sched arbitrary: p)
  case Nil
  then show ?case by simp
next
  case (Cons k sched)
  from step_no_out_of_bounds [OF assms(1) Cons.prems]
  have "p_status (step fl ex c ws k p) \<noteq> Undefined (ResultsIndexOutOfBounds t s)" .
  from Cons.IH [OF this] show ?case by simp
qed

lemma step_decoding:
  assumes "p_status p = Running" and "k < length ws" and "p_phases p ! k = Decoding d s"
    and "s < w_end (ws ! k)"
  shows "step fl ex c ws k p =
           (case workerStep fl ex c (ws ! k) (Decoding d s) of
              (evs, st, ph) \<Rightarrow>
                \<lparr>p_status = st, p_events = p_events p @ evs, p_phases = (p_phases p)[k := ph]\<rparr>)"
  using assms by (simp add: step_def)

lemma step_length: "length (p_phases (step fl ex c ws k p)) = length (p_phases p)"
  by (simp add: step_def split: prod.splits)

lemma step_not_finished:
  "p_status p \<noteq> Finished \<Longrightarrow> p_status (step fl ex c ws k p) \<noteq> Finished"
  by (auto simp: step_def workerStep_def Let_def
      split: if_splits sum.splits option.splits list.splits Phase.splits prod.splits)

lemma run_not_finished:
  "p_status p \<noteq> Finished \<Longrightarrow> p_status (run fl ex c ws sched p) \<noteq> Finished"
  by (induction sched arbitrary: p) (simp_all add: step_not_finished)

text \<open>
  A worker that is aborting stays so as long as the process runs, whatever the other
  workers do, and the process has ended after the worker's next step.
\<close>

lemma step_aborting:
  assumes "k < length (p_phases p)" and "p_phases p ! k = Aborting f"
    and "p_status (step fl ex c ws j p) = Running"
  shows "p_phases (step fl ex c ws j p) ! k = Aborting f"
proof (cases "p_status p \<noteq> Running \<or> length ws \<le> j")
  case True
  with assms(2) show ?thesis by (simp add: step_def)
next
  case False
  obtain evs st ph' where w: "workerStep fl ex c (ws ! j) (p_phases p ! j) = (evs, st, ph')"
    by (cases "workerStep fl ex c (ws ! j) (p_phases p ! j)") auto
  with False have s: "step fl ex c ws j p =
      \<lparr>p_status = st, p_events = p_events p @ evs, p_phases = (p_phases p)[j := ph']\<rparr>"
    by (simp add: step_def)
  have "j \<noteq> k"
  proof
    assume "j = k"
    with w assms(2) have "st = Fatal f" by (simp add: workerStep_def)
    with s assms(3) show False by simp
  qed
  with s assms(2) show ?thesis by simp
qed

lemma run_aborting:
  assumes "k < length (p_phases p)" and "p_phases p ! k = Aborting f"
    and "p_status (run fl ex c ws sched p) = Running"
  shows "p_phases (run fl ex c ws sched p) ! k = Aborting f"
  using assms
proof (induction sched arbitrary: p)
  case Nil
  then show ?case by simp
next
  case (Cons j sched)
  let ?q = "step fl ex c ws j p"
  have r: "p_status ?q = Running"
  proof (rule ccontr)
    assume n: "p_status ?q \<noteq> Running"
    then have "run fl ex c ws sched ?q = ?q" by (rule run_not_running)
    with Cons.prems(3) n show False by simp
  qed
  from step_aborting [OF Cons.prems(1,2) r] have "p_phases ?q ! k = Aborting f" .
  moreover from Cons.prems(1) have "k < length (p_phases ?q)" by (simp add: step_length)
  ultimately show ?case using Cons.IH [of ?q] Cons.prems(3) by simp
qed

lemma run_length: "length (p_phases (run fl ex c ws sched p)) = length (p_phases p)"
  by (induction sched arbitrary: p) (simp_all add: step_length)

lemma step_of_aborting:
  assumes "p_status p = Running" and "k < length ws" and "p_phases p ! k = Aborting f"
  shows "step fl ex c ws k p = p\<lparr>p_status := Fatal f\<rparr>"
proof -
  from assms(3) have "(p_phases p)[k := Aborting f] = p_phases p"
    by (metis list_update_id)
  with assms show ?thesis by (cases p) (simp add: step_def workerStep_def)
qed

lemma startThreads_total:
  "prepare_counters fl = Inr () \<Longrightarrow> \<exists>ws. startThreads fl n per = Inr ws"
  by (auto simp: prepare_counters_def startThreads_def split: if_splits)

subsection \<open>Insertion and lookup in the trie\<close>

lemma labels_at_Nil: "labels_at n [] = labels n"
  by (simp add: labels_at_def)

lemma labels_at_Cons:
  "labels_at (TrieNode ls ch) (tok # toks) =
     (case ch tok of None \<Rightarrow> [] | Some c \<Rightarrow> labels_at c toks)"
  by (simp add: labels_at_def child_def split: option.splits)

lemma labels_at_emptyNode: "labels_at emptyNode toks = []"
  by (cases toks) (simp_all add: labels_at_def emptyNode_def child_def)

lemma labels_at_insertNode:
  "labels_at (insertNode toks l sc n) toks' =
     labels_at n toks' @ (if toks' = toks then [(l, sc)] else [])"
proof (induction toks l sc n arbitrary: toks' rule: insertNode.induct)
  case (1 l sc ls ch)
  show ?case by (cases toks') (simp_all add: labels_at_Nil labels_at_Cons)
next
  case (2 tok toks l sc ls ch)
  show ?case
  proof (cases toks')
    case Nil
    then show ?thesis by (simp add: labels_at_Nil)
  next
    case (Cons a as)
    show ?thesis
    proof (cases "a = tok")
      case True
      with Cons 2 [of as] show ?thesis
        by (simp add: labels_at_Cons labels_at_emptyNode split: option.splits)
    next
      case False
      with Cons show ?thesis by (simp add: labels_at_Cons)
    qed
  qed
qed

lemma inserted_at_append:
  "inserted_at (evs @ evs') toks = inserted_at evs toks @ inserted_at evs' toks"
  by (induction evs toks rule: inserted_at.induct) simp_all

lemma plant_word_labels:
  "plant_word ex ls prons t = (evs, Inr t') \<Longrightarrow>
     labels_at (trie_root t') toks = labels_at (trie_root t) toks @ inserted_at evs toks \<and>
     smeared t' = smeared t \<and> (\<forall>tokens\<in>set prons. tokens2Tensor ex tokens \<noteq> [])"
proof (induction prons arbitrary: t evs)
  case Nil
  then show ?case by simp
next
  case (Cons tokens rest)
  let ?tt = "tokens2Tensor ex tokens"
  from Cons.prems obtain t1 where ti: "trie_insert t ?tt (fst ls) (snd ls) = Inr t1"
    by (auto simp: Let_def split: sum.splits)
  then have ne: "?tt \<noteq> []" and t1: "t1 = t\<lparr>trie_root := insertNode ?tt (fst ls) (snd ls) (trie_root t)\<rparr>"
    by (auto simp: trie_insert_def split: if_splits)
  obtain evs1 r1 where pw: "plant_word ex ls rest t1 = (evs1, r1)"
    by (cases "plant_word ex ls rest t1")
  with Cons.prems ti have evs: "evs = TrieInsert ?tt (fst ls) (snd ls) # evs1" and r1: "r1 = Inr t'"
    by (auto simp: Let_def)
  from Cons.IH [of t1 evs1] pw r1
  have ih: "labels_at (trie_root t') toks = labels_at (trie_root t1) toks @ inserted_at evs1 toks"
    "smeared t' = smeared t1" "\<forall>tokens\<in>set rest. tokens2Tensor ex tokens \<noteq> []"
    by simp_all
  from t1 have "labels_at (trie_root t1) toks =
      labels_at (trie_root t) toks @ (if toks = ?tt then [(fst ls, snd ls)] else [])"
    by (simp add: labels_at_insertNode)
  with ih evs ne t1 show ?case by auto
qed

lemma plant_lexicon_labels:
  "plant_lexicon fl ex lm lxc t = (evs, Inr t') \<Longrightarrow>
     labels_at (trie_root t') toks = labels_at (trie_root t) toks @ inserted_at evs toks \<and>
     smeared t' = smeared t \<and>
     (\<forall>it\<in>set lxc. \<forall>tokens\<in>set (snd it). tokens2Tensor ex tokens \<noteq> [])"
proof (induction lxc arbitrary: t evs)
  case Nil
  then show ?case by simp
next
  case (Cons it rest)
  let ?ls = "word_label fl ex lm (fst it)"
  obtain evs1 r1 where pw: "plant_word ex ?ls (snd it) t = (evs1, r1)"
    by (cases "plant_word ex ?ls (snd it) t")
  with Cons.prems obtain t1 where r1: "r1 = Inr t1"
    by (cases r1) auto
  obtain evs2 r2 where pl: "plant_lexicon fl ex lm rest t1 = (evs2, r2)"
    by (cases "plant_lexicon fl ex lm rest t1")
  with Cons.prems pw r1 have evs: "evs = evs1 @ evs2" and r2: "r2 = Inr t'" by auto
  from plant_word_labels [of ex ?ls "snd it" t evs1 t1 toks] pw r1
  have 1: "labels_at (trie_root t1) toks = labels_at (trie_root t) toks @ inserted_at evs1 toks"
    "smeared t1 = smeared t" "\<forall>tokens\<in>set (snd it). tokens2Tensor ex tokens \<noteq> []"
    by simp_all
  from Cons.IH [of t1 evs2] pl r2
  have 2: "labels_at (trie_root t') toks = labels_at (trie_root t1) toks @ inserted_at evs2 toks"
    "smeared t' = smeared t1"
    "\<forall>it\<in>set rest. \<forall>tokens\<in>set (snd it). tokens2Tensor ex tokens \<noteq> []"
    by simp_all
  from 1 2 evs show ?case by (simp add: inserted_at_append)
qed

lemma inserted_at_member:
  "TrieInsert toks l sc \<in> set evs \<Longrightarrow> (l, sc) \<in> set (inserted_at evs toks)"
  by (induction evs toks rule: inserted_at.induct) auto

lemma inserted_at_smear: "inserted_at (evs @ [TrieSmear m]) toks = inserted_at evs toks"
  by (simp add: inserted_at_append)

lemma labels_at_search:
  "x \<in> set (labels_at n toks) \<Longrightarrow> \<exists>m. searchNode n toks = Some m \<and> labels m = labels_at n toks"
  by (cases "searchNode n toks") (simp_all add: labels_at_def)

subsection \<open>The number of samples per thread\<close>

lemma round_nearest_even_le:
  assumes "0 < den" and "num \<le> x * den"
  shows "round_nearest_even num den \<le> x"
proof -
  define q where "q = num div den"
  define r where "r = num mod den"
  have eq: "num = q * den + r" by (simp add: q_def r_def)
  have r: "0 \<le> r" "r < den" using assms(1) by (simp_all add: r_def)
  have q: "q \<le> x"
  proof -
    have "q * den \<le> x * den" using eq r assms(2) by linarith
    then show ?thesis using assms(1) by simp
  qed
  have q1: "q + 1 \<le> x" if "0 < r"
  proof -
    have "q * den < x * den" using eq that assms(2) by linarith
    then have "q < x" using assms(1) by simp
    then show ?thesis by simp
  qed
  have "round_nearest_even num den = q \<or> (round_nearest_even num den = q + 1 \<and> 0 < r)"
    using r assms(1) by (auto simp: round_nearest_even_def Let_def q_def r_def)
  with q q1 show ?thesis by auto
qed

lemma round_nearest_even_gt:
  assumes "0 < den" and "(2 * y + 1) * den < 2 * num"
  shows "y < round_nearest_even num den"
proof -
  define q where "q = num div den"
  define r where "r = num mod den"
  have eq: "num = q * den + r" by (simp add: q_def r_def)
  have r: "0 \<le> r" "r < den" using assms(1) by (simp_all add: r_def)
  have a: "y < q" if "2 * r \<le> den"
  proof -
    have "2 * num \<le> (2 * q + 1) * den" using eq that by (simp add: algebra_simps)
    with assms(2) have "(2 * y + 1) * den < (2 * q + 1) * den" by linarith
    then have "2 * y + 1 < 2 * q + 1" using assms(1) by simp
    then show ?thesis by simp
  qed
  have b: "y < q + 1"
  proof -
    have "2 * num < (2 * q + 2) * den" using eq r by (simp add: algebra_simps)
    with assms(2) have "(2 * y + 1) * den < (2 * q + 2) * den" by linarith
    then have "2 * y + 1 < 2 * q + 2" using assms(1) by simp
    then show ?thesis by simp
  qed
  have "(round_nearest_even num den = q \<and> 2 * r \<le> den) \<or> round_nearest_even num den = q + 1"
    by (auto simp: round_nearest_even_def Let_def q_def r_def)
  with a b show ?thesis by auto
qed

lemma ceil_div_bounds:
  assumes "0 < (t::int)"
  shows "(- ((- n) div t) - 1) * t < n \<and> n \<le> - ((- n) div t) * t"
proof -
  define q where "q = (- n) div t"
  define r where "r = (- n) mod t"
  have eq: "- n = q * t + r" by (simp add: q_def r_def)
  have r: "0 \<le> r" "r < t" using assms by (simp_all add: r_def)
  have "(- q - 1) * t = - (q * t) - t" by (simp add: algebra_simps)
  moreover have "- q * t = - (q * t)" by simp
  ultimately have "(- q - 1) * t < n \<and> n \<le> - q * t" using eq r by linarith
  then show ?thesis by (simp add: q_def)
qed

lemma ceil_div_unique:
  assumes "0 < (d::int)" and "(q - 1) * d < m" and "m \<le> q * d"
  shows "- ((- m) div d) = q"
proof -
  define c where "c = - ((- m) div d)"
  have 1: "(c - 1) * d < m" "m \<le> c * d"
    using ceil_div_bounds [OF assms(1), of m] by (simp_all add: c_def)
  have "(q - 1) * d < c * d" using assms(2) 1(2) by linarith
  then have "q - 1 < c" using assms(1) by simp
  moreover have "(c - 1) * d < q * d" using assms(3) 1(1) by linarith
  then have "c - 1 < q" using assms(1) by simp
  ultimately show ?thesis by (simp add: c_def)
qed

lemma float_of_int_small:
  assumes "0 \<le> n" and "n < 2 ^ 24"
  shows "float_of_int n = Float32 n 0"
proof -
  from assms(2) have "bitlen n \<le> 24" by (simp add: bitlen_le_iff_power)
  then show ?thesis by (simp add: float_of_int_def Let_def)
qed

lemma float_ceil_nonpos_exponent:
  "float_ceil_to_int (Float32 m (- int k)) = - ((- m) div 2 ^ k)"
  by (cases "k = 0") (simp_all add: float_ceil_to_int_def)

lemma scale_nonpos_exponent:
  "scale_num a (- int k) = a * 2 ^ k" "scale_den b (- int k) = b"
  by (cases "k = 0"; simp add: scale_num_def scale_den_def)+

lemma float_div_exponent:
  assumes "0 < n" and "n < 2 ^ 24" and "1 \<le> t"
  shows "\<exists>k. float_div (Float32 n 0) (Float32 t 0) =
               Float32 (round_nearest_even (n * 2 ^ k) t) (- int k) \<and> t < 2 * 2 ^ k"
proof -
  define e0 where "e0 = bitlen n - bitlen t - 24"
  define e where "e = (if scale_num n e0 div scale_den t e0 < 2 ^ 24 then e0 else e0 + 1)"
  from assms(2) have bn: "bitlen n \<le> 24" by (simp add: bitlen_le_iff_power)
  from assms(3) have bt: "1 \<le> bitlen t" by (simp add: bitlen_ge_iff_power)
  from bn bt have e_le: "e \<le> 0" and e_ge: "- e \<ge> bitlen t - 1"
    by (simp_all add: e_def e0_def)
  define k where "k = nat (- e)"
  from e_le have ek: "e = - int k" by (simp add: k_def)
  from e_ge bt have "nat (bitlen t) \<le> Suc k" by (simp add: k_def)
  then have "(2::int) ^ nat (bitlen t) \<le> 2 ^ Suc k"
    by (rule power_increasing) simp
  moreover from assms(3) have "t < 2 ^ nat (bitlen t)"
    using bitlen_bounds [of t] by simp
  ultimately have tk: "t < 2 * 2 ^ k" by simp
  from assms(1) have "float_div (Float32 n 0) (Float32 t 0) =
      Float32 (round_nearest_even (scale_num n e) (scale_den t e)) e"
    by (simp add: float_div_def Let_def e_def e0_def)
  then have "float_div (Float32 n 0) (Float32 t 0) =
      Float32 (round_nearest_even (n * 2 ^ k) t) (- int k)"
    by (simp add: ek scale_nonpos_exponent)
  with tk show ?thesis by blast
qed

lemma nSamplePerThread_exact:
  assumes "0 \<le> n" and "n < 2 ^ 24" and "1 \<le> t" and "t < 2 ^ 24"
  shows "nSamplePerThread n t = - ((- n) div t)"
proof (cases "n = 0")
  case True
  then show ?thesis
    by (simp add: nSamplePerThread_def float_of_int_def float_div_def float_ceil_to_int_def)
next
  case False
  with assms(1) have n: "0 < n" by simp
  from assms(3) have t: "0 < t" "0 \<le> t" by simp_all
  obtain k where fd: "float_div (Float32 n 0) (Float32 t 0) =
      Float32 (round_nearest_even (n * 2 ^ k) t) (- int k)"
    and tk: "t < 2 * 2 ^ k"
    using float_div_exponent [OF n assms(2,3)] by blast
  define P :: int where "P = 2 ^ k"
  have P: "0 < P" by (simp add: P_def)
  define q where "q = - ((- n) div t)"
  have lo: "(q - 1) * t < n" and hi: "n \<le> q * t"
    using ceil_div_bounds [OF t(1), of n] by (simp_all add: q_def)
  define m where "m = round_nearest_even (n * P) t"
  define A where "A = (q - 1) * P * t"
  have "n * P \<le> (q * t) * P" using hi P by (simp add: mult_right_mono)
  then have "n * P \<le> (q * P) * t" by (simp add: mult.assoc mult.commute [of t P])
  with t(1) have up: "m \<le> q * P" unfolding m_def by (rule round_nearest_even_le)
  have "(q - 1) * t + 1 \<le> n" using lo by simp
  then have "((q - 1) * t + 1) * P \<le> n * P" using P by (simp add: mult_right_mono)
  moreover have "((q - 1) * t + 1) * P = A + P" by (simp add: A_def algebra_simps)
  ultimately have "A + P \<le> n * P" by simp
  with tk have "2 * A + t < 2 * (n * P)" by (simp add: P_def)
  moreover have "(2 * ((q - 1) * P) + 1) * t = 2 * A + t" by (simp add: A_def algebra_simps)
  ultimately have "(2 * ((q - 1) * P) + 1) * t < 2 * (n * P)" by simp
  with t(1) have dn: "(q - 1) * P < m" unfolding m_def by (rule round_nearest_even_gt)
  from P dn up have "- ((- m) div P) = q" by (rule ceil_div_unique)
  moreover have "nSamplePerThread n t = - ((- m) div P)"
    using assms fd
    by (simp add: nSamplePerThread_def float_of_int_small float_ceil_nonpos_exponent
        m_def P_def)
  ultimately show ?thesis by (simp add: q_def)
qed

text \<open>
  Below \<open>2 ^ 24\<close> samples and threads the slices are the consecutive intervals that
  cover \<open>[0, nSample)\<close>: every sample index occurs once, in order.
\<close>

lemma spread_indices:
  assumes "0 < per" and "n \<le> t * per"
  shows "slice_indices (spread i t per n) = [i * per .. n - 1]"
  using assms
proof (induction i t per n rule: spread.induct)
  case (1 i nthread per nSample)
  show ?case
  proof (cases "i < nthread \<and> i * per < nSample")
    case False
    have "nSample \<le> i * per"
    proof (cases "i < nthread")
      case True
      with False show ?thesis by simp
    next
      case False
      then have "nthread * per \<le> i * per" using "1.prems"(1) by (simp add: mult_right_mono)
      with "1.prems"(2) show ?thesis by simp
    qed
    then have "[i * per .. nSample - 1] = []" by simp
    moreover from False have "spread i nthread per nSample = []"
      by (subst spread.simps) auto
    ultimately show ?thesis by (simp add: slice_indices_def)
  next
    case True
    then have sp: "spread i nthread per nSample =
        \<lparr>w_tid = i, w_start = i * per, w_end = min ((i + 1) * per) nSample\<rparr>
          # spread (i + 1) nthread per nSample"
      by (subst spread.simps) auto
    from True "1.IH" "1.prems"
    have ih: "slice_indices (spread (i + 1) nthread per nSample) = [(i + 1) * per .. nSample - 1]"
      by simp
    have lt: "i * per < (i + 1) * per" using "1.prems"(1) by (simp add: algebra_simps)
    show ?thesis
    proof (cases "(i + 1) * per \<le> nSample")
      case True
      then have "min ((i + 1) * per) nSample = (i + 1) * per" by simp
      moreover have "[i * per .. nSample - 1] =
          [i * per .. (i + 1) * per - 1] @ [(i + 1) * per .. nSample - 1]"
        using lt True upto_split2 [of "i * per" "(i + 1) * per - 1" "nSample - 1"] by simp
      ultimately show ?thesis using sp ih by (simp add: slice_indices_def)
    next
      case False
      then have "min ((i + 1) * per) nSample = nSample" by simp
      moreover from False have "[(i + 1) * per .. nSample - 1] = []" by simp
      ultimately show ?thesis using sp ih by (simp add: slice_indices_def)
    qed
  qed
qed

lemma slices_partition_small:
  assumes "0 \<le> n" and "n < 2 ^ 24"
    and "1 \<le> FLAGS_nthread_decoder fl" and "FLAGS_nthread_decoder fl < 2 ^ 24"
  shows "\<exists>ws. startThreads fl n (nSamplePerThread n (FLAGS_nthread_decoder fl)) = Inr ws \<and>
           slice_indices ws = [0 .. n - 1]"
proof (cases "FLAGS_nthread_decoder fl = 1")
  case True
  then show ?thesis by (simp add: startThreads_def slice_indices_def)
next
  case False
  define t where "t = FLAGS_nthread_decoder fl"
  from False assms(3) have t: "1 < t" by (simp add: t_def)
  define per where "per = nSamplePerThread n t"
  from assms t have per: "per = - ((- n) div t)"
    unfolding per_def t_def by (intro nSamplePerThread_exact) simp_all
  from t have st: "startThreads fl n per = Inr (spread 0 t per n)"
    by (simp add: startThreads_def t_def)
  have "slice_indices (spread 0 t per n) = [0 .. n - 1]"
  proof (cases "n = 0")
    case True
    then have "per = 0" by (simp add: per)
    with True have "spread 0 t per n = []" by (subst spread.simps) simp
    with True show ?thesis by (simp add: slice_indices_def)
  next
    case False
    with assms(1) have n: "0 < n" by simp
    from t have t0: "0 < t" by simp
    from ceil_div_bounds [OF t0, of n] have b: "(per - 1) * t < n" "n \<le> per * t"
      by (simp_all add: per)
    have "0 < per"
    proof (rule ccontr)
      assume "\<not> 0 < per"
      then have "per * t \<le> 0" using t0 by (simp add: mult_le_0_iff)
      with b(2) n show False by simp
    qed
    moreover from b(2) have "n \<le> t * per" by (simp add: mult.commute)
    ultimately have "slice_indices (spread 0 t per n) = [0 * per .. n - 1]"
      by (rule spread_indices)
    then show ?thesis by simp
  qed
  with st show ?thesis by (simp add: per_def t_def)
qed

lemma round_nearest_even_nonneg:
  "0 \<le> num \<Longrightarrow> 0 \<le> den \<Longrightarrow> 0 \<le> round_nearest_even num den"
proof -
  assume a: "0 \<le> num" "0 \<le> den"
  then have "0 \<le> num div den"
    by (cases "den = 0") (simp_all add: pos_imp_zdiv_nonneg_iff)
  then show ?thesis by (simp add: round_nearest_even_def Let_def)
qed

lemma float_of_int_nonneg: "0 \<le> n \<Longrightarrow> 0 \<le> mantissa (float_of_int n)"
  by (simp add: float_of_int_def Let_def round_nearest_even_nonneg)

lemma float_div_nonneg:
  "0 \<le> mantissa x \<Longrightarrow> 0 \<le> mantissa y \<Longrightarrow> 0 \<le> mantissa (float_div x y)"
  by (simp add: float_div_def Let_def scale_num_def scale_den_def round_nearest_even_nonneg)

lemma float_ceil_nonneg: "0 \<le> mantissa x \<Longrightarrow> 0 \<le> float_ceil_to_int x"
proof -
  assume m: "0 \<le> mantissa x"
  have "(- mantissa x) div 2 ^ nat (- exponent x) \<le> 0"
    using m by (simp add: div_nonpos_pos_le0)
  with m show ?thesis by (simp add: float_ceil_to_int_def)
qed

lemma nSamplePerThread_nonneg: "0 \<le> n \<Longrightarrow> 0 \<le> t \<Longrightarrow> 0 \<le> nSamplePerThread n t"
  by (simp add: nSamplePerThread_def float_ceil_nonneg float_div_nonneg float_of_int_nonneg)

lemma spread_in_range:
  "0 \<le> i \<Longrightarrow> 0 \<le> per \<Longrightarrow> w \<in> set (spread i t per n) \<Longrightarrow>
     0 \<le> w_start w \<and> w_end w \<le> n"
proof (induction i t per n rule: spread.induct)
  case (1 i nthread per nSample)
  show ?case
  proof (cases "i < nthread \<and> i * per < nSample")
    case False
    then have "spread i nthread per nSample = []" by (subst spread.simps) auto
    with "1.prems" show ?thesis by simp
  next
    case True
    then have sp: "spread i nthread per nSample =
        \<lparr>w_tid = i, w_start = i * per, w_end = min ((i + 1) * per) nSample\<rparr>
          # spread (i + 1) nthread per nSample"
      by (subst spread.simps) auto
    from "1.prems"(3) sp consider
        "w = \<lparr>w_tid = i, w_start = i * per, w_end = min ((i + 1) * per) nSample\<rparr>"
      | "w \<in> set (spread (i + 1) nthread per nSample)"
      by auto
    then show ?thesis
    proof cases
      case 1
      with "1.prems"(1,2) show ?thesis by simp
    next
      case 2
      with True "1.IH" "1.prems"(1,2) show ?thesis by simp
    qed
  qed
qed

text \<open>
  The slices of a run lie within the emission set, so the reads of lines 356-360 are
  in range.
\<close>

lemma worker_slices_in_range:
  assumes "construct fl df ex = (evs, Inr c)"
    and "startThreads fl (c_nSample c) (c_nSamplePerThread c) = Inr ws"
    and "w \<in> set ws"
  shows "0 \<le> w_start w \<and> w_end w \<le> int (length (samples (c_emissionSet c)))"
proof -
  from construct_Inr [OF assms(1)] have pc: "prepare_counters fl = Inr ()"
    and n: "c_nSample c = count_samples fl (c_emissionSet c)"
    and per: "c_nSamplePerThread c = nSamplePerThread (c_nSample c) (FLAGS_nthread_decoder fl)"
    by simp_all
  from n have n0: "0 \<le> c_nSample c" and nl: "c_nSample c \<le> int (length (samples (c_emissionSet c)))"
    by (simp_all add: count_samples_def Let_def)
  from pc have t: "0 < FLAGS_nthread_decoder fl"
    by (simp add: prepare_counters_def split: if_splits)
  with n0 per have p0: "0 \<le> c_nSamplePerThread c" by (simp add: nSamplePerThread_nonneg)
  have "0 \<le> w_start w \<and> w_end w \<le> c_nSample c"
  proof (cases "FLAGS_nthread_decoder fl = 1")
    case True
    with assms(2,3) n0 show ?thesis by (auto simp: startThreads_def)
  next
    case False
    with t assms(2,3) have "w \<in> set (spread 0 (FLAGS_nthread_decoder fl)
        (c_nSamplePerThread c) (c_nSample c))"
      by (auto simp: startThreads_def)
    with p0 show ?thesis by (intro spread_in_range [of 0]) simp_all
  qed
  with nl show ?thesis by simp
qed

text \<open>
  Whatever the collaborators do, a construction that succeeds without a lexicon has
  made no call to the trie, and the decoder of type \<^verbatim>\<open>"wrd"\<close> is built on a null
  trie and a null unknown-word label.
\<close>

lemma word_decoder_without_lexicon:
  assumes "FLAGS_decodertype fl = ''wrd''" and "FLAGS_lexicon fl = []"
    and "construct fl df ex = (evs, Inr c)"
  shows "evs = [] \<and>
         buildDecoder fl ex c =
           Inr (WordLMDecoder (c_decoderOpt c) None (c_lm c) (c_silIdx c) (c_blankIdx c) None
                  (c_transition c))"
proof -
  from construct_Inr [OF assms(3)] assms(2)
  have "evs = []" "c_trie c = None" "c_unk c = None"
    by (simp_all add: build_trie_def)
  with assms(1) show ?thesis by (simp add: buildDecoder_def)
qed

subsection \<open>Concrete runs\<close>

text \<open>The definitions a concrete run unfolds.\<close>

lemmas eval_defs = main_run_def construct_def small_flags_def w2l_defines_def small_ex_def
  prepare_counters_def prepare_criterion_def open_logs_def build_lm_def make_shared_def
  check_tokens_def build_trie_def createEmissionSet_def count_samples_def Let_def
  word_label_def trie_insert_def smear_mode_def startThreads_def finish_def
  unigram_lm_def abc_dict_def word_dict_def newTrie_def trie_smear_def spread.simps

lemma run_append:
  "run fl ex c ws (xs @ ys) p = run fl ex c ws ys (run fl ex c ws xs p)"
  by (induction xs arbitrary: p) simp_all

lemma unigram_lm_index:
  "lm_index unigram_lm w = (if w = ''ab'' then 7 else if w = ''b'' then 8 else 0)"
  by (simp add: unigram_lm_def)

lemma nSamplePerThread_2_2: "nSamplePerThread 2 2 = 1"
  by (simp add: nSamplePerThread_def float_div_def float_of_int_def float_ceil_to_int_def
      scale_num_def scale_den_def round_nearest_even_def compute_bitlen Let_def)

lemmas stage_defs = prepare_counters_def prepare_criterion_def open_logs_def build_lm_def
  make_shared_def check_tokens_def build_trie_def createEmissionSet_def count_samples_def

lemma construct_throwing:
  "construct lexfree_flags w2l_defines throwing_ex = ([], Inr zero_ctx)"
  by (simp add: construct_def stage_defs Let_def lexfree_flags_def small_flags_def
      w2l_defines_def throwing_ex_def small_ex_def zero_ctx_def abc_dict_def
      unigram_lm_index nSamplePerThread_2_2)

lemma startThreads_two: "startThreads lexfree_flags 2 1 = Inr two_slices"
  by (simp add: startThreads_def lexfree_flags_def small_flags_def two_slices_def spread.simps)

lemma buildDecoder_lexfree:
  "tokenDict ex = abc_dict \<Longrightarrow> buildDecoder lexfree_flags ex zero_ctx = Inr lexfree_decoder"
  by (simp add: buildDecoder_def lexfree_flags_def small_flags_def zero_ctx_def
      lexfree_decoder_def abc_dict_def unigram_lm_index upto.simps)

lemma run_throwing:
  "run lexfree_flags throwing_ex zero_ctx two_slices [0, 1, 0]
     \<lparr>p_status = Running, p_events = [], p_phases = [Building, Building]\<rparr> =
   \<lparr>p_status = Running,
    p_events = [NewDecoder 0 lexfree_decoder, NewDecoder 1 lexfree_decoder, DecodeCall 0 0],
    p_phases = [Aborting (ExceptionInThread 0 ''no frames''), Decoding lexfree_decoder 1]\<rparr>"
proof -
  have td: "tokenDict throwing_ex = abc_dict" "newDecoder throwing_ex = (\<lambda>d. None)"
    "decode throwing_ex = (\<lambda>d em T N. if T = 0 then Inl (StdException ''no frames'')
                                     else Inr [one_result])"
    by (simp_all add: throwing_ex_def small_ex_def)
  have ctx: "c_emissionSet zero_ctx =
      \<lparr>samples = [sample_zero, sample_b], emissionN = 3, transition = []\<rparr>"
    by (simp add: zero_ctx_def)
  show ?thesis
    by (simp add: step_def workerStep_def buildDecoder_lexfree td two_slices_def handler_def
        ctx sample_zero_def)
qed

text \<open>
  After the exception in worker 0 the abort may land at once, or worker 1 may first
  decode its sample and write its counters.
\<close>

lemma run_abort_lands:
  "run lexfree_flags throwing_ex zero_ctx two_slices [0]
     \<lparr>p_status = Running,
      p_events = [NewDecoder 0 lexfree_decoder, NewDecoder 1 lexfree_decoder, DecodeCall 0 0],
      p_phases = [Aborting (ExceptionInThread 0 ''no frames''), Decoding lexfree_decoder 1]\<rparr> =
   \<lparr>p_status = Fatal (ExceptionInThread 0 ''no frames''),
    p_events = [NewDecoder 0 lexfree_decoder, NewDecoder 1 lexfree_decoder, DecodeCall 0 0],
    p_phases = [Aborting (ExceptionInThread 0 ''no frames''), Decoding lexfree_decoder 1]\<rparr>"
  by (simp add: step_def workerStep_def two_slices_def)

lemma run_other_worker_goes_on:
  "run lexfree_flags throwing_ex zero_ctx two_slices [1, 1, 0]
     \<lparr>p_status = Running,
      p_events = [NewDecoder 0 lexfree_decoder, NewDecoder 1 lexfree_decoder, DecodeCall 0 0],
      p_phases = [Aborting (ExceptionInThread 0 ''no frames''), Decoding lexfree_decoder 1]\<rparr> =
   \<lparr>p_status = Fatal (ExceptionInThread 0 ''no frames''),
    p_events = [NewDecoder 0 lexfree_decoder, NewDecoder 1 lexfree_decoder, DecodeCall 0 0,
                DecodeCall 1 1, SliceStats 1 1],
    p_phases = [Aborting (ExceptionInThread 0 ''no frames''), Stopped]\<rparr>"
proof -
  have td: "decode throwing_ex = (\<lambda>d em T N. if T = 0 then Inl (StdException ''no frames'')
                                     else Inr [one_result])"
    "cleanup throwing_ex = (\<lambda>r smp. None)"
    by (simp_all add: throwing_ex_def small_ex_def)
  have ctx: "c_emissionSet zero_ctx =
      \<lparr>samples = [sample_zero, sample_b], emissionN = 3, transition = []\<rparr>"
    by (simp add: zero_ctx_def)
  show ?thesis
    by (simp add: step_def workerStep_def td two_slices_def ctx sample_b_def)
qed

lemma main_run_other_worker_goes_on:
  "main_run lexfree_flags w2l_defines throwing_ex [0, 1, 0, 1, 1, 0] =
     \<lparr>p_status = Fatal (ExceptionInThread 0 ''no frames''),
      p_events = [NewDecoder 0 lexfree_decoder, NewDecoder 1 lexfree_decoder, DecodeCall 0 0,
                  DecodeCall 1 1, SliceStats 1 1],
      p_phases = [Aborting (ExceptionInThread 0 ''no frames''), Stopped]\<rparr>"
proof -
  have "run lexfree_flags throwing_ex zero_ctx two_slices ([0, 1, 0] @ [1, 1, 0])
     \<lparr>p_status = Running, p_events = [], p_phases = [Building, Building]\<rparr> =
   \<lparr>p_status = Fatal (ExceptionInThread 0 ''no frames''),
    p_events = [NewDecoder 0 lexfree_decoder, NewDecoder 1 lexfree_decoder, DecodeCall 0 0,
                DecodeCall 1 1, SliceStats 1 1],
    p_phases = [Aborting (ExceptionInThread 0 ''no frames''), Stopped]\<rparr>"
    unfolding run_append run_throwing run_other_worker_goes_on ..
  then show ?thesis
    by (simp add: main_run_def construct_throwing startThreads_two zero_ctx_def two_slices_def
        finish_def)
qed

lemmas config_defs = small_flags_def lexfree_flags_def emission_file_flags_def w2l_defines_def
  small_ex_def abc_dict_def word_dict_def unigram_lm_index spread.simps

lemma emission_file_run:
  "p_events (main_run emission_file_flags w2l_defines small_ex [0]) = [NewDecoder 0 stored_decoder]"
  by (simp add: main_run_def construct_def stage_defs Let_def config_defs startThreads_def
      nSamplePerThread_2_2 finish_def step_def workerStep_def buildDecoder_def upto.simps
      stored_decoder_def)

lemma bogus_smearing_run:
  "main_run (small_flags\<lparr>FLAGS_smearing := ''bogus''\<rparr>) w2l_defines small_ex sched =
     \<lparr>p_status = Fatal (InvalidSmearingMode ''bogus''),
      p_events = [TrieInsert [0, 1] \<lparr>lmIndex = 7, wordIndex = 0\<rparr> (- 2),
                  TrieInsert [1] \<lparr>lmIndex = 8, wordIndex = 1\<rparr> (- 3)],
      p_phases = []\<rparr>"
  by (simp add: eval_defs)

lemma small_run_status: "p_status (main_run small_flags w2l_defines small_ex []) = Running"
  by (simp add: eval_defs nSamplePerThread_2_2)

lemma nSamplePerThread_beyond:
  "nSamplePerThread 16777217 2 = 8388608"
  by (simp add: nSamplePerThread_def float_div_def float_of_int_def float_ceil_to_int_def
      scale_num_def scale_den_def round_nearest_even_def compute_bitlen Let_def)

subsection \<open>The null check on the language model\<close>

lemma workerStep_not_lm_failure:
  assumes "workerStep fl ex c w ph = (evs, st, ph')" and "ph \<noteq> Aborting (FailedToLoadLM m)"
  shows "st \<noteq> Fatal (FailedToLoadLM m) \<and> ph' \<noteq> Aborting (FailedToLoadLM m)"
  using assms
  by (auto simp: workerStep_def buildDecoder_def handler_def Let_def
      split: if_splits sum.splits option.splits list.splits Phase.splits exn.splits)

lemma step_not_lm_failure:
  assumes "p_status p \<noteq> Fatal (FailedToLoadLM m)" and "length (p_phases p) = length ws"
    and "\<forall>ph\<in>set (p_phases p). ph \<noteq> Aborting (FailedToLoadLM m)"
  shows "p_status (step fl ex c ws k p) \<noteq> Fatal (FailedToLoadLM m) \<and>
         length (p_phases (step fl ex c ws k p)) = length ws \<and>
         (\<forall>ph\<in>set (p_phases (step fl ex c ws k p)). ph \<noteq> Aborting (FailedToLoadLM m))"
proof (cases "p_status p \<noteq> Running \<or> length ws \<le> k")
  case True
  with assms show ?thesis by (simp add: step_def)
next
  case False
  obtain evs st ph' where w: "workerStep fl ex c (ws ! k) (p_phases p ! k) = (evs, st, ph')"
    by (cases "workerStep fl ex c (ws ! k) (p_phases p ! k)") auto
  from False assms(2) have "p_phases p ! k \<in> set (p_phases p)" by simp
  with assms(3) have "p_phases p ! k \<noteq> Aborting (FailedToLoadLM m)" by blast
  from workerStep_not_lm_failure [OF w this]
  have st: "st \<noteq> Fatal (FailedToLoadLM m)" and ph: "ph' \<noteq> Aborting (FailedToLoadLM m)"
    by simp_all
  from False w have s: "step fl ex c ws k p =
      \<lparr>p_status = st, p_events = p_events p @ evs, p_phases = (p_phases p)[k := ph']\<rparr>"
    by (simp add: step_def)
  have "set ((p_phases p)[k := ph']) \<subseteq> insert ph' (set (p_phases p))"
    by (rule set_update_subset_insert)
  with assms(2,3) st ph s show ?thesis by auto
qed

lemma run_not_lm_failure:
  assumes "p_status p \<noteq> Fatal (FailedToLoadLM m)" and "length (p_phases p) = length ws"
    and "\<forall>ph\<in>set (p_phases p). ph \<noteq> Aborting (FailedToLoadLM m)"
  shows "p_status (run fl ex c ws sched p) \<noteq> Fatal (FailedToLoadLM m)"
  using assms
proof (induction sched arbitrary: p)
  case Nil
  then show ?case by simp
next
  case (Cons k sched)
  from step_not_lm_failure [OF Cons.prems, of fl ex c k]
  have "p_status (run fl ex c ws sched (step fl ex c ws k p)) \<noteq> Fatal (FailedToLoadLM m)"
    by (intro Cons.IH) simp_all
  then show ?case by simp
qed

text \<open>
  C10. With \<^verbatim>\<open>FLAGS_lmtype == "kenlm"\<close> the pointer that \<^verbatim>\<open>std::make_shared\<close>
  returns is never null: a failure to load the model leaves by an exception. The test
  \<^verbatim>\<open>if (!lm)\<close> of line 254 is therefore always false, and no run of the driver ends
  with the fatal error "Failed to load LM".
\<close>

theorem lm_null_check_never_fires:
  "make_shared (KenLM ex (FLAGS_lm fl)) \<noteq> Inr None \<and>
   build_lm fl ex \<noteq> Inl (Fatal (FailedToLoadLM m)) \<and>
   p_status (main_run fl df ex sched) \<noteq> Fatal (FailedToLoadLM m)"
proof -
  have a: "make_shared (KenLM ex (FLAGS_lm fl)) \<noteq> Inr None"
    by (rule make_shared_not_null)
  have b: "build_lm fl ex \<noteq> Inl (Fatal (FailedToLoadLM m))"
    using build_lm_status [of fl ex "Fatal (FailedToLoadLM m)"] by auto
  have c: "p_status (main_run fl df ex sched) \<noteq> Fatal (FailedToLoadLM m)"
  proof (cases rule: main_run_cases [of fl df ex sched])
    case (failed evs st)
    with construct_failure_not_running [of fl df ex evs st m] show ?thesis by simp
  next
    case (no_threads evs c f)
    then have "f = InvalidNthreadDecoder"
      by (simp add: startThreads_def split: if_splits)
    with no_threads show ?thesis by simp
  next
    case (decoding evs c ws)
    let ?p0 = "\<lparr>p_status = Running, p_events = evs,
                 p_phases = replicate (length ws) Building\<rparr> :: 'a Process"
    have "p_status (run fl ex c ws sched ?p0) \<noteq> Fatal (FailedToLoadLM m)"
      by (rule run_not_lm_failure) simp_all
    then have "p_status (finish (run fl ex c ws sched ?p0)) \<noteq> Fatal (FailedToLoadLM m)"
      using finish_status [of "run fl ex c ws sched ?p0"] by auto
    with decoding show ?thesis by simp
  qed
  from a b c show ?thesis by blast
qed

theorem lm_null_check_never_fires_witness:
  "make_shared (KenLM small_ex (FLAGS_lm small_flags)) \<noteq> Inr None \<and>
   build_lm small_flags small_ex \<noteq> Inl (Fatal (FailedToLoadLM ''lm.bin'')) \<and>
   p_status (main_run small_flags w2l_defines small_ex [0, 1]) \<noteq> Fatal (FailedToLoadLM ''lm.bin'')"
  by (rule lm_null_check_never_fires)

subsection \<open>Labels and scores of the insertions\<close>

text \<open>
  C9. Every insertion the driver makes into the trie is the insertion of a pronunciation
  of a word of the lexicon: its token sequence is that pronunciation's, and its label
  carries that word's index in the word dictionary. When the decoder type is not
  \<^verbatim>\<open>"wrd"\<close> the label has \<open>lmIndex = -1\<close> and the score is \<open>-1\<close>. When it is
  \<^verbatim>\<open>"wrd"\<close>, the label carries the index of that same word in the vocabulary of the
  language model, and the score is the one the model gives that word from its start
  state.
\<close>

theorem trie_labels_by_decoder_type:
  assumes "TrieInsert toks l sc \<in> set (p_events (main_run fl df ex sched))"
  shows "\<exists>lm word prons tokens.
           build_lm fl ex = Inr lm \<and> (word, prons) \<in> set (loadWords ex) \<and>
           tokens \<in> set prons \<and> toks = tokens2Tensor ex tokens \<and>
           wordIndex l = getIndex (wordDict ex) word \<and>
           (if FLAGS_decodertype fl = ''wrd''
            then lmIndex l = lm_index lm word \<and>
                 sc = snd (lm_score lm (lm_start lm False) (lm_index lm word))
            else lmIndex l = - 1 \<and> sc = - 1)"
proof -
  from main_run_inserts [OF assms] obtain lm where lm: "build_lm fl ex = Inr lm"
    and "TrieInsert toks l sc \<in> set (lexicon_inserts fl ex lm (loadWords ex))"
    by blast
  then obtain word prons tokens where w: "(word, prons) \<in> set (loadWords ex)"
    and t: "tokens \<in> set prons" "toks = tokens2Tensor ex tokens"
    and l: "l = fst (word_label fl ex lm word)" and sc: "sc = snd (word_label fl ex lm word)"
    by (auto simp: lexicon_inserts_member)
  from l have wi: "wordIndex l = getIndex (wordDict ex) word"
    by (simp add: word_label_def Let_def split: prod.splits)
  have "if FLAGS_decodertype fl = ''wrd''
        then lmIndex l = lm_index lm word \<and>
             sc = snd (lm_score lm (lm_start lm False) (lm_index lm word))
        else lmIndex l = - 1 \<and> sc = - 1"
    using l sc by (simp add: word_label_def)
  with lm w t wi show ?thesis by blast
qed

theorem trie_labels_by_decoder_type_witness:
  "TrieInsert [1] \<lparr>lmIndex = - 1, wordIndex = 1\<rparr> (- 1)
     \<in> set (p_events (main_run (small_flags\<lparr>FLAGS_decodertype := ''tkn''\<rparr>)
                 w2l_defines small_ex [])) \<and>
   TrieInsert [1] \<lparr>lmIndex = 8, wordIndex = 1\<rparr> (- 3)
     \<in> set (p_events (main_run small_flags w2l_defines small_ex [])) \<and>
   (\<exists>word prons tokens. (word, prons) \<in> set (loadWords small_ex) \<and> tokens \<in> set prons \<and>
      [1] = tokens2Tensor small_ex tokens \<and>
      (1::int) = getIndex (wordDict small_ex) word \<and>
      (8::int) = lm_index unigram_lm word \<and>
      (- 3::real) = snd (lm_score unigram_lm (lm_start unigram_lm False)
                           (lm_index unigram_lm word)))"
proof -
  have tkn: "TrieInsert [1] \<lparr>lmIndex = - 1, wordIndex = 1\<rparr> (- 1)
     \<in> set (p_events (main_run (small_flags\<lparr>FLAGS_decodertype := ''tkn''\<rparr>)
                 w2l_defines small_ex []))"
    by (simp add: eval_defs)
  have wrd: "TrieInsert [1] \<lparr>lmIndex = 8, wordIndex = 1\<rparr> (- 3)
     \<in> set (p_events (main_run small_flags w2l_defines small_ex []))"
    by (simp add: eval_defs)
  have lm: "build_lm small_flags small_ex = Inr unigram_lm"
    by (simp add: build_lm_def make_shared_def small_flags_def small_ex_def)
  have "FLAGS_decodertype small_flags = ''wrd''"
    by (simp add: small_flags_def)
  with trie_labels_by_decoder_type [OF wrd] lm
  have "\<exists>word prons tokens. (word, prons) \<in> set (loadWords small_ex) \<and> tokens \<in> set prons \<and>
      [1] = tokens2Tensor small_ex tokens \<and>
      (1::int) = getIndex (wordDict small_ex) word \<and>
      (8::int) = lm_index unigram_lm word \<and>
      (- 3::real) = snd (lm_score unigram_lm (lm_start unigram_lm False)
                           (lm_index unigram_lm word))"
    by auto
  with tkn wrd show ?thesis by blast
qed

subsection \<open>The silence and blank tokens\<close>

text \<open>
  C5. When the silence token or the blank token is not a single character, the run ends
  during construction: no call has been made to the trie or to a decoder, no worker
  exists, and the process is neither running nor finished. Unless an earlier step of the
  construction has already ended the process, the status is the fatal error of the
  length check that failed, the silence token's first.
\<close>

theorem token_length_checks_fail_fast:
  assumes "length (kSilToken df) \<noteq> 1 \<or> length (kBlankToken df) \<noteq> 1"
  shows "p_events (main_run fl df ex sched) = [] \<and>
         p_phases (main_run fl df ex sched) = [] \<and>
         p_status (main_run fl df ex sched) \<noteq> Running \<and>
         p_status (main_run fl df ex sched) \<noteq> Finished \<and>
         (prepare_counters fl = Inr () \<and> (\<exists>ct. prepare_criterion fl df = Inr ct) \<and>
          open_logs fl ex = Inr () \<and> (\<exists>lm. build_lm fl ex = Inr lm) \<longrightarrow>
          p_status (main_run fl df ex sched) =
            Fatal (InvalidUnknownSymbol
                     (if length (kSilToken df) \<noteq> 1 then kSilToken df else kBlankToken df)))"
proof -
  from assms obtain st where ct: "check_tokens df = Inl st"
    and st: "st = Fatal (InvalidUnknownSymbol
                     (if length (kSilToken df) \<noteq> 1 then kSilToken df else kBlankToken df))"
    by (auto simp: check_tokens_def)
  obtain evs r where c: "construct fl df ex = (evs, r)" by (cases "construct fl df ex")
  have "\<exists>st'. r = Inl st'"
  proof (cases r)
    case (Inr c')
    with c construct_Inr [of fl df ex evs c'] ct show ?thesis by simp
  qed simp
  then obtain st' where r: "r = Inl st'" by blast
  with c construct_Inl [of fl df ex evs st'] ct
  have evs: "evs = []" and early: "prepare_counters fl = Inl st' \<or> prepare_criterion fl df = Inl st' \<or>
            open_logs fl ex = Inl st' \<or> build_lm fl ex = Inl st' \<or> check_tokens df = Inl st'"
    by auto
  from c r have m: "main_run fl df ex sched = \<lparr>p_status = st', p_events = evs, p_phases = []\<rparr>"
    by (simp add: main_run_def)
  from c r construct_failure_not_running [of fl df ex evs st']
  have "st' \<noteq> Running \<and> st' \<noteq> Finished"
    by blast
  moreover have "prepare_counters fl = Inr () \<and> (\<exists>ct. prepare_criterion fl df = Inr ct) \<and>
          open_logs fl ex = Inr () \<and> (\<exists>lm. build_lm fl ex = Inr lm) \<longrightarrow> st' = st"
    using early ct by auto
  ultimately show ?thesis using m evs st by simp
qed

theorem token_length_checks_fail_fast_witness:
  "p_events (main_run small_flags (w2l_defines\<lparr>kSilToken := ''sil''\<rparr>) small_ex [0, 1]) = [] \<and>
   p_status (main_run small_flags (w2l_defines\<lparr>kSilToken := ''sil''\<rparr>) small_ex [0, 1]) =
     Fatal (InvalidUnknownSymbol ''sil'') \<and>
   p_status (main_run small_flags (w2l_defines\<lparr>kBlankToken := []\<rparr>) small_ex [0, 1]) =
     Fatal (InvalidUnknownSymbol [])"
proof -
  have early: "prepare_counters small_flags = Inr ()"
    "\<And>df. kCtcCriterion df = ''ctc'' \<Longrightarrow> \<exists>ct. prepare_criterion small_flags df = Inr ct"
    "open_logs small_flags small_ex = Inr ()"
    "\<exists>lm. build_lm small_flags small_ex = Inr lm"
    by (simp_all add: prepare_counters_def prepare_criterion_def open_logs_def build_lm_def
        make_shared_def small_flags_def small_ex_def)
  have sil: "length (kSilToken (w2l_defines\<lparr>kSilToken := ''sil''\<rparr>)) \<noteq> 1 \<or>
             length (kBlankToken (w2l_defines\<lparr>kSilToken := ''sil''\<rparr>)) \<noteq> 1"
    by (simp add: w2l_defines_def)
  have blank: "length (kSilToken (w2l_defines\<lparr>kBlankToken := []\<rparr>)) \<noteq> 1 \<or>
               length (kBlankToken (w2l_defines\<lparr>kBlankToken := []\<rparr>)) \<noteq> 1"
    by (simp add: w2l_defines_def)
  from token_length_checks_fail_fast [OF sil, of small_flags small_ex "[0, 1]"] early
  have 1: "p_events (main_run small_flags (w2l_defines\<lparr>kSilToken := ''sil''\<rparr>) small_ex [0, 1]) = []"
    "p_status (main_run small_flags (w2l_defines\<lparr>kSilToken := ''sil''\<rparr>) small_ex [0, 1]) =
     Fatal (InvalidUnknownSymbol ''sil'')"
    by (simp_all add: w2l_defines_def)
  from token_length_checks_fail_fast [OF blank, of small_flags small_ex "[0, 1]"] early
  have 2: "p_status (main_run small_flags (w2l_defines\<lparr>kBlankToken := []\<rparr>) small_ex [0, 1]) =
     Fatal (InvalidUnknownSymbol [])"
    by (simp add: w2l_defines_def)
  from 1 2 show ?thesis by blast
qed

subsection \<open>The transition vector of the decoders\<close>

text \<open>
  C6, as amended. Every decoder a worker builds receives \<^verbatim>\<open>emissionSet.transition\<close>.
  When the emissions are computed by the forward pass (\<^verbatim>\<open>FLAGS_emission_dir\<close> empty)
  this vector is \<^verbatim>\<open>criterion->param(0)\<close> if \<^verbatim>\<open>FLAGS_criterion\<close> is the ASG
  criterion and is empty otherwise, for CTC in particular. When the emissions are read
  from an emission file it is the vector stored in that file, whatever the criterion.
\<close>

theorem decoder_transition_source:
  assumes "NewDecoder t d \<in> set (p_events (main_run fl df ex sched))"
  shows "decoderTransition d =
           (if FLAGS_emission_dir fl = []
            then (if FLAGS_criterion fl = kAsgCriterion df then criterionParam ex else [])
            else transition (loadedEmissionSet ex))"
proof -
  from main_run_new_decoder [OF assms] obtain evs c where
    c: "construct fl df ex = (evs, Inr c)" and d: "buildDecoder fl ex c = Inr d"
    by blast
  from construct_Inr [OF c] have "c_transition c = transition (createEmissionSet fl df ex)"
    by simp
  with buildDecoder_transition [OF d] show ?thesis
    by (simp add: createEmissionSet_def Let_def)
qed

theorem decoder_transition_source_witness:
  "NewDecoder 0 stored_decoder
     \<in> set (p_events (main_run emission_file_flags w2l_defines small_ex [0])) \<and>
   decoderTransition stored_decoder = transition (loadedEmissionSet small_ex)"
proof -
  have h: "NewDecoder 0 stored_decoder
             \<in> set (p_events (main_run emission_file_flags w2l_defines small_ex [0]))"
    by (simp add: emission_file_run)
  from decoder_transition_source [OF h]
  have "decoderTransition stored_decoder = transition (loadedEmissionSet small_ex)"
    by (simp add: emission_file_flags_def)
  with h show ?thesis by blast
qed

text \<open>
  C6 as stated fails: with \<^verbatim>\<open>FLAGS_criterion = "ctc"\<close> and emissions read from a file
  that stores the transition vector \<open>[1]\<close>, the lexicon-free decoder of worker 0 is
  built with that non-empty vector.
\<close>

theorem ctc_decoder_with_stored_transition:
  "FLAGS_criterion emission_file_flags = kCtcCriterion w2l_defines \<and>
   p_events (main_run emission_file_flags w2l_defines small_ex [0]) =
     [NewDecoder 0
        (LexiconFreeDecoder \<lparr>criterionType = CTC\<rparr> unigram_lm 2 2 [1]
           [(0, 0), (1, 8), (2, 0)])]"
  using emission_file_run
  by (simp add: stored_decoder_def emission_file_flags_def lexfree_flags_def small_flags_def
      w2l_defines_def)

subsection \<open>The unguarded read of the first result\<close>

text \<open>
  C8. In each iteration of the loop over its slice a worker reads \<^verbatim>\<open>results[0]\<close>
  without testing \<^verbatim>\<open>results\<close>: the iteration ends in an out-of-bounds read exactly
  when \<^verbatim>\<open>decode\<close> returned the empty list for that sample, whatever the number of
  frames. Hence no run reads out of bounds if \<^verbatim>\<open>decode\<close> never returns an empty
  list.
\<close>

theorem results_index_unguarded:
  "(p_status p = Running \<and> k < length ws \<and> p_phases p ! k = Decoding d s \<and>
    s < w_end (ws ! k) \<longrightarrow>
      (p_status (step fl ex c ws k p) = Undefined (ResultsIndexOutOfBounds (w_tid (ws ! k)) s)
       \<longleftrightarrow>
       decode ex d (emission (samples (c_emissionSet c) ! nat s))
         (emissionT (samples (c_emissionSet c) ! nat s)) (emissionN (c_emissionSet c)) = Inr [])) \<and>
   ((\<forall>d' em T N. decode ex d' em T N \<noteq> Inr []) \<longrightarrow>
      p_status (main_run fl df ex sched) \<noteq> Undefined (ResultsIndexOutOfBounds t' s'))"
proof (intro conjI impI)
  assume a: "p_status p = Running \<and> k < length ws \<and> p_phases p ! k = Decoding d s \<and>
    s < w_end (ws ! k)"
  then have "step fl ex c ws k p =
           (case workerStep fl ex c (ws ! k) (Decoding d s) of
              (evs, st, ph) \<Rightarrow>
                \<lparr>p_status = st, p_events = p_events p @ evs, p_phases = (p_phases p)[k := ph]\<rparr>)"
    by (simp add: step_decoding)
  with a show "p_status (step fl ex c ws k p) =
        Undefined (ResultsIndexOutOfBounds (w_tid (ws ! k)) s) \<longleftrightarrow>
       decode ex d (emission (samples (c_emissionSet c) ! nat s))
         (emissionT (samples (c_emissionSet c) ! nat s)) (emissionN (c_emissionSet c)) = Inr []"
    by (auto simp: workerStep_def handler_def Let_def
        split: sum.splits option.splits list.splits exn.splits)
next
  assume ne: "\<forall>d' em T N. decode ex d' em T N \<noteq> Inr []"
  show "p_status (main_run fl df ex sched) \<noteq> Undefined (ResultsIndexOutOfBounds t' s')"
  proof (cases rule: main_run_cases [of fl df ex sched])
    case (failed evs st)
    with construct_failure_status [of fl df ex evs st] show ?thesis by auto
  next
    case (no_threads evs c f)
    then show ?thesis by simp
  next
    case (decoding evs c ws)
    let ?p0 = "\<lparr>p_status = Running, p_events = evs,
                 p_phases = replicate (length ws) Building\<rparr> :: 'a Process"
    have "p_status (run fl ex c ws sched ?p0) \<noteq> Undefined (ResultsIndexOutOfBounds t' s')"
      by (rule run_no_out_of_bounds [OF ne]) simp
    with finish_status [of "run fl ex c ws sched ?p0"] decoding show ?thesis by auto
  qed
qed

theorem results_index_unguarded_witness:
  "p_status (step lexfree_flags empty_result_ex zero_ctx two_slices 0
      \<lparr>p_status = Running, p_events = [], p_phases = [Decoding lexfree_decoder 0, Building]\<rparr>) =
     Undefined (ResultsIndexOutOfBounds 0 0) \<and>
   p_status (main_run small_flags w2l_defines small_ex [0, 1, 0, 1]) \<noteq>
     Undefined (ResultsIndexOutOfBounds 0 0)"
proof -
  let ?p = "\<lparr>p_status = Running, p_events = [],
             p_phases = [Decoding lexfree_decoder 0, Building]\<rparr> :: unit Process"
  have pre: "p_status ?p = Running \<and> 0 < length two_slices \<and>
      p_phases ?p ! 0 = Decoding lexfree_decoder 0 \<and> 0 < w_end (two_slices ! 0)"
    by (simp add: two_slices_def)
  have dec: "decode empty_result_ex lexfree_decoder
        (emission (samples (c_emissionSet zero_ctx) ! nat 0))
        (emissionT (samples (c_emissionSet zero_ctx) ! nat 0))
        (emissionN (c_emissionSet zero_ctx)) = Inr []"
    by (simp add: empty_result_ex_def zero_ctx_def sample_zero_def)
  have never: "\<forall>d' em T N. decode small_ex d' em T N \<noteq> Inr []"
    by (simp add: small_ex_def)
  from results_index_unguarded [where p = ?p and k = 0 and ws = two_slices
      and d = lexfree_decoder and s = 0 and fl = lexfree_flags and ex = empty_result_ex
      and c = zero_ctx]
    pre dec
  have 1: "p_status (step lexfree_flags empty_result_ex zero_ctx two_slices 0 ?p) =
     Undefined (ResultsIndexOutOfBounds 0 0)"
    by (simp add: two_slices_def)
  from results_index_unguarded [where ex = small_ex and fl = small_flags and df = w2l_defines
      and sched = "[0, 1, 0, 1]" and t' = 0 and s' = 0]
    never
  have 2: "p_status (main_run small_flags w2l_defines small_ex [0, 1, 0, 1]) \<noteq>
     Undefined (ResultsIndexOutOfBounds 0 0)"
    by blast
  from 1 2 show ?thesis by blast
qed

subsection \<open>An exception in a worker\<close>

text \<open>
  C2, as amended. An exception derived from \<^verbatim>\<open>std::exception\<close> that
  \<^verbatim>\<open>decode\<close> throws on a sample of a worker's slice is caught in that worker and
  logged, with the worker's thread id, at severity FATAL, which aborts the whole process
  from the failing thread. The failing worker decodes nothing more: as long as the
  process runs it stays in the handler. The other workers are not stopped at once; they
  may go on until the abort lands. With the failing worker's next step the process has
  ended, with the fatal error of that worker if no other worker ended the process before,
  and in no schedule does the process finish.
\<close>

theorem worker_exception_ends_process:
  assumes "p_status p = Running" and "k < length ws" and "length (p_phases p) = length ws"
    and "p_phases p ! k = Decoding d s" and "s < w_end (ws ! k)"
    and "decode ex d (emission (samples (c_emissionSet c) ! nat s))
           (emissionT (samples (c_emissionSet c) ! nat s)) (emissionN (c_emissionSet c)) =
         Inl (StdException msg)"
  shows "step fl ex c ws k p =
           \<lparr>p_status = Running, p_events = p_events p @ [DecodeCall (w_tid (ws ! k)) s],
            p_phases = (p_phases p)[k := Aborting (ExceptionInThread (w_tid (ws ! k)) msg)]\<rparr> \<and>
         step fl ex c ws k (step fl ex c ws k p) =
           \<lparr>p_status = Fatal (ExceptionInThread (w_tid (ws ! k)) msg),
            p_events = p_events p @ [DecodeCall (w_tid (ws ! k)) s],
            p_phases = (p_phases p)[k := Aborting (ExceptionInThread (w_tid (ws ! k)) msg)]\<rparr> \<and>
         (p_status (run fl ex c ws sched (step fl ex c ws k p)) = Running \<longrightarrow>
            p_phases (run fl ex c ws sched (step fl ex c ws k p)) ! k =
              Aborting (ExceptionInThread (w_tid (ws ! k)) msg)) \<and>
         p_status (run fl ex c ws (sched @ [k]) (step fl ex c ws k p)) \<noteq> Running \<and>
         p_status (run fl ex c ws (sched @ [k]) (step fl ex c ws k p)) \<noteq> Finished \<and>
         p_status (finish (run fl ex c ws sched (step fl ex c ws k p))) \<noteq> Finished"
proof -
  let ?f = "ExceptionInThread (w_tid (ws ! k)) msg"
  let ?q = "step fl ex c ws k p"
  let ?r = "run fl ex c ws sched ?q"
  from assms have q: "?q =
      \<lparr>p_status = Running, p_events = p_events p @ [DecodeCall (w_tid (ws ! k)) s],
       p_phases = (p_phases p)[k := Aborting ?f]\<rparr>"
    by (simp add: step_decoding workerStep_def handler_def Let_def)
  from assms(2,3) have kq: "k < length (p_phases ?q)" by (simp add: step_length)
  from q assms(2,3) have aq: "p_phases ?q ! k = Aborting ?f" by simp
  from q have rq: "p_status ?q = Running" by simp
  have 2: "step fl ex c ws k ?q =
      \<lparr>p_status = Fatal ?f, p_events = p_events p @ [DecodeCall (w_tid (ws ! k)) s],
       p_phases = (p_phases p)[k := Aborting ?f]\<rparr>"
    using step_of_aborting [OF rq assms(2) aq] q by simp
  have 3: "p_status ?r = Running \<longrightarrow> p_phases ?r ! k = Aborting ?f"
    using run_aborting [OF kq aq] by blast
  have nf: "p_status ?r \<noteq> Finished"
    using rq by (intro run_not_finished) simp
  have 4: "p_status (run fl ex c ws (sched @ [k]) ?q) \<noteq> Running \<and>
           p_status (run fl ex c ws (sched @ [k]) ?q) \<noteq> Finished"
  proof (cases "p_status ?r = Running")
    case True
    with 3 have "p_phases ?r ! k = Aborting ?f" by blast
    from step_of_aborting [OF True assms(2) this]
    show ?thesis by (simp add: run_append)
  next
    case False
    with nf show ?thesis by (simp add: run_append step_def)
  qed
  have 5: "p_status (finish ?r) \<noteq> Finished"
  proof (cases "p_status ?r = Running")
    case True
    with 3 have "p_phases ?r ! k = Aborting ?f" by blast
    moreover from kq have "k < length (p_phases ?r)" by (simp add: run_length)
    ultimately have "\<not> list_all isStopped (p_phases ?r)"
      by (metis isStopped.simps(4) list_all_length)
    with True show ?thesis by (simp add: finish_def)
  next
    case False
    with nf show ?thesis by (simp add: finish_def)
  qed
  from q 2 3 4 5 show ?thesis by blast
qed

theorem worker_exception_ends_process_witness:
  "step lexfree_flags throwing_ex zero_ctx two_slices 0
     \<lparr>p_status = Running, p_events = [],
      p_phases = [Decoding lexfree_decoder 0, Decoding lexfree_decoder 1]\<rparr> =
   \<lparr>p_status = Running, p_events = [DecodeCall 0 0],
    p_phases = [Aborting (ExceptionInThread 0 ''no frames''), Decoding lexfree_decoder 1]\<rparr> \<and>
   p_status (run lexfree_flags throwing_ex zero_ctx two_slices ([1, 1] @ [0])
     (step lexfree_flags throwing_ex zero_ctx two_slices 0
        \<lparr>p_status = Running, p_events = [],
         p_phases = [Decoding lexfree_decoder 0, Decoding lexfree_decoder 1]\<rparr>)) \<noteq> Running \<and>
   p_status (finish (run lexfree_flags throwing_ex zero_ctx two_slices [1, 1]
     (step lexfree_flags throwing_ex zero_ctx two_slices 0
        \<lparr>p_status = Running, p_events = [],
         p_phases = [Decoding lexfree_decoder 0, Decoding lexfree_decoder 1]\<rparr>))) \<noteq> Finished"
proof -
  let ?p = "\<lparr>p_status = Running, p_events = [],
             p_phases = [Decoding lexfree_decoder 0, Decoding lexfree_decoder 1]\<rparr> :: unit Process"
  have dec: "decode throwing_ex lexfree_decoder
        (emission (samples (c_emissionSet zero_ctx) ! nat 0))
        (emissionT (samples (c_emissionSet zero_ctx) ! nat 0))
        (emissionN (c_emissionSet zero_ctx)) = Inl (StdException ''no frames'')"
    by (simp add: throwing_ex_def zero_ctx_def sample_zero_def)
  have "p_status ?p = Running" "0 < length two_slices"
    "length (p_phases ?p) = length two_slices"
    "p_phases ?p ! 0 = Decoding lexfree_decoder 0" "0 < w_end (two_slices ! 0)"
    by (simp_all add: two_slices_def)
  note pre = this
  have tid: "w_tid (two_slices ! 0) = 0" by (simp add: two_slices_def)
  have upd: "(p_phases ?p)[0 := Aborting (ExceptionInThread 0 ''no frames'')] =
      [Aborting (ExceptionInThread 0 ''no frames''), Decoding lexfree_decoder 1]"
    by simp
  note all = worker_exception_ends_process [OF pre dec, of lexfree_flags "[1, 1]",
      unfolded tid upd]
  from all have 1: "step lexfree_flags throwing_ex zero_ctx two_slices 0 ?p =
      \<lparr>p_status = Running, p_events = [DecodeCall 0 0],
       p_phases = [Aborting (ExceptionInThread 0 ''no frames''), Decoding lexfree_decoder 1]\<rparr>"
    by simp
  from all have 2: "p_status (run lexfree_flags throwing_ex zero_ctx two_slices ([1, 1] @ [0])
      (step lexfree_flags throwing_ex zero_ctx two_slices 0 ?p)) \<noteq> Running"
    by blast
  from all have 3: "p_status (finish (run lexfree_flags throwing_ex zero_ctx two_slices [1, 1]
      (step lexfree_flags throwing_ex zero_ctx two_slices 0 ?p))) \<noteq> Finished"
    by blast
  from 1 2 3 show ?thesis by blast
qed

text \<open>
  C2 as stated fails: with two workers, worker 1 has built its decoder and is about to
  decode sample 1 when \<^verbatim>\<open>decode\<close> throws in worker 0 and the abort lands; the whole
  process ends with the fatal error of thread 0 and sample 1 is never decoded, although
  the schedule gives worker 1 two more turns.
\<close>

theorem worker_exception_counterexample:
  "main_run lexfree_flags w2l_defines throwing_ex [0, 1, 0, 0, 1, 1] =
     \<lparr>p_status = Fatal (ExceptionInThread 0 ''no frames''),
      p_events = [NewDecoder 0 lexfree_decoder, NewDecoder 1 lexfree_decoder, DecodeCall 0 0],
      p_phases = [Aborting (ExceptionInThread 0 ''no frames''), Decoding lexfree_decoder 1]\<rparr>"
proof -
  have "run lexfree_flags throwing_ex zero_ctx two_slices ([0, 1, 0] @ [0] @ [1, 1])
     \<lparr>p_status = Running, p_events = [], p_phases = [Building, Building]\<rparr> =
   \<lparr>p_status = Fatal (ExceptionInThread 0 ''no frames''),
    p_events = [NewDecoder 0 lexfree_decoder, NewDecoder 1 lexfree_decoder, DecodeCall 0 0],
    p_phases = [Aborting (ExceptionInThread 0 ''no frames''), Decoding lexfree_decoder 1]\<rparr>"
    unfolding run_append run_throwing run_abort_lands by (rule run_not_running) simp
  then show ?thesis
    by (simp add: main_run_def construct_throwing startThreads_two zero_ctx_def two_slices_def
        finish_def)
qed

subsection \<open>The word decoder without a lexicon\<close>

text \<open>
  C1 does not hold of the driver. With \<^verbatim>\<open>FLAGS_decodertype = "wrd"\<close> and an empty
  \<^verbatim>\<open>FLAGS_lexicon\<close> no trie is built, no fatal error is raised, and worker 0 calls
  the constructor of \<^verbatim>\<open>WordLMDecoder\<close> with a null trie and a null unknown-word
  label; its next step calls \<^verbatim>\<open>decode\<close> on sample 0. Only the token decoder's
  branch (line 329) tests \<^verbatim>\<open>FLAGS_lexicon\<close> before it passes the trie on.
\<close>

theorem word_decoder_built_on_null_trie:
  "main_run (small_flags\<lparr>FLAGS_lexicon := []\<rparr>) w2l_defines small_ex [0, 0] =
     \<lparr>p_status = Running,
      p_events = [NewDecoder 0 (WordLMDecoder \<lparr>criterionType = CTC\<rparr> None unigram_lm 2 2 None []),
                  DecodeCall 0 0],
      p_phases = [Decoding (WordLMDecoder \<lparr>criterionType = CTC\<rparr> None unigram_lm 2 2 None []) 1,
                  Building]\<rparr>"
  by (simp add: main_run_def construct_def stage_defs Let_def config_defs startThreads_def
      nSamplePerThread_2_2 finish_def step_def workerStep_def buildDecoder_def
      sample_a_def)

subsection \<open>Smearing between insertion and decoding\<close>

text \<open>
  C3, as amended. In every run with a lexicon, either the calls are all insertions of
  the lexicon, in order, one per pronunciation of every word, then exactly one call of
  \<^verbatim>\<open>trie->smear\<close>, then calls of the workers only (decoder constructors, decode
  calls, slice counters), so that no insertion follows the smearing and every decode
  call comes after it; or the run ended during construction, before the smearing: then
  only insertions were made, no worker exists and the process is neither running nor
  finished.
\<close>

theorem smear_once_between_inserts_and_decodes:
  assumes "FLAGS_lexicon fl \<noteq> []"
  shows "(\<exists>lm m rest. build_lm fl ex = Inr lm \<and>
            p_events (main_run fl df ex sched) =
              lexicon_inserts fl ex lm (loadWords ex) @ [TrieSmear m] @ rest \<and>
            (\<forall>e\<in>set rest. \<not> isTrieInsert e \<and> \<not> isTrieSmear e)) \<or>
         (list_all isTrieInsert (p_events (main_run fl df ex sched)) \<and>
          p_phases (main_run fl df ex sched) = [] \<and>
          p_status (main_run fl df ex sched) \<noteq> Running \<and>
          p_status (main_run fl df ex sched) \<noteq> Finished)"
proof (cases rule: main_run_cases [of fl df ex sched])
  case (failed evs st)
  from construct_failure_not_running [OF failed(1)]
  have st: "st \<noteq> Running" "st \<noteq> Finished" by blast+
  from construct_Inl [OF failed(1)] have "list_all isTrieInsert evs"
  proof
    assume "evs = [] \<and> (prepare_counters fl = Inl st \<or> prepare_criterion fl df = Inl st \<or>
            open_logs fl ex = Inl st \<or> build_lm fl ex = Inl st \<or> check_tokens df = Inl st)"
    then show ?thesis by simp
  next
    assume "\<exists>lm. build_lm fl ex = Inr lm \<and> check_tokens df = Inr () \<and>
            build_trie fl df ex lm (getIndex (tokenDict ex) (kSilToken df))
              (lm_index lm (kUnkToken df)) = (evs, Inl st)"
    then obtain lm where bt: "build_trie fl df ex lm (getIndex (tokenDict ex) (kSilToken df))
              (lm_index lm (kUnkToken df)) = (evs, Inl st)" by blast
    from build_trie_shape [OF bt] obtain n where
      "evs = take n (lexicon_inserts fl ex lm (loadWords ex))" by auto
    with lexicon_inserts_all_inserts [of fl ex lm "loadWords ex"] show ?thesis
      by (auto simp: list_all_iff dest: in_set_takeD)
  qed
  with failed st show ?thesis by simp
next
  case (no_threads evs c f)
  from construct_Inr [OF no_threads(1)] have "prepare_counters fl = Inr ()" by simp
  from startThreads_total [OF this, of "c_nSample c" "c_nSamplePerThread c"] no_threads(2)
  show ?thesis by simp
next
  case (decoding evs c ws)
  let ?p0 = "\<lparr>p_status = Running, p_events = evs,
               p_phases = replicate (length ws) Building\<rparr> :: 'a Process"
  from construct_Inr [OF decoding(1)] have lm: "build_lm fl ex = Inr (c_lm c)"
    and bt: "build_trie fl df ex (c_lm c) (getIndex (tokenDict ex) (kSilToken df))
            (lm_index (c_lm c) (kUnkToken df)) = (evs, Inr (c_trie c, c_unk c))"
    by simp_all
  from build_trie_shape [OF bt] assms obtain m where
    evs: "evs = lexicon_inserts fl ex (c_lm c) (loadWords ex) @ [TrieSmear m]"
    by auto
  obtain rest where "p_events (run fl ex c ws sched ?p0) = p_events ?p0 @ rest"
    and rest: "\<forall>e\<in>set rest. \<not> isTrieInsert e \<and> \<not> isTrieSmear e"
    using run_events [of fl ex c ws sched ?p0] by blast
  with decoding evs
  have "p_events (main_run fl df ex sched) =
          lexicon_inserts fl ex (c_lm c) (loadWords ex) @ [TrieSmear m] @ rest"
    by (simp add: finish_events)
  with lm rest show ?thesis by blast
qed

theorem smear_once_between_inserts_and_decodes_witness:
  "\<exists>m rest. p_events (main_run small_flags w2l_defines small_ex []) =
      lexicon_inserts small_flags small_ex unigram_lm (loadWords small_ex)
        @ [TrieSmear m] @ rest \<and>
      (\<forall>e\<in>set rest. \<not> isTrieInsert e \<and> \<not> isTrieSmear e)"
proof -
  have lex: "FLAGS_lexicon small_flags \<noteq> []" by (simp add: small_flags_def)
  have lm: "build_lm small_flags small_ex = Inr unigram_lm"
    by (simp add: build_lm_def make_shared_def small_flags_def small_ex_def)
  from smear_once_between_inserts_and_decodes [OF lex, of small_ex w2l_defines "[]"]
    lm small_run_status
  show ?thesis by auto
qed

text \<open>
  C3 as stated fails: with a lexicon and \<^verbatim>\<open>FLAGS_smearing = "bogus"\<close> the driver
  inserts both words and then stops with the fatal error of line 306; \<^verbatim>\<open>smear\<close> is
  not called once but never.
\<close>

theorem invalid_smearing_mode_never_smears:
  "FLAGS_lexicon (small_flags\<lparr>FLAGS_smearing := ''bogus''\<rparr>) = ''lexicon.txt'' \<and>
   main_run (small_flags\<lparr>FLAGS_smearing := ''bogus''\<rparr>) w2l_defines small_ex [0, 1] =
     \<lparr>p_status = Fatal (InvalidSmearingMode ''bogus''),
      p_events = [TrieInsert [0, 1] \<lparr>lmIndex = 7, wordIndex = 0\<rparr> (- 2),
                  TrieInsert [1] \<lparr>lmIndex = 8, wordIndex = 1\<rparr> (- 3)],
      p_phases = []\<rparr>"
  by (simp add: bogus_smearing_run) (simp add: small_flags_def)

subsection \<open>Round trip through the trie\<close>

text \<open>
  C7, as amended, for the trie as the specification describes it. When the construction
  completes with a lexicon, then for every word of the lexicon and every one of its
  pronunciations the token sequence is non-empty and was inserted with the word's label
  and score: the label carries the word's index in the word dictionary, and the word's
  index in the language model and its score from the start state if the decoder type is
  \<^verbatim>\<open>"wrd"\<close>, otherwise \<open>-1\<close> and \<open>-1\<close>. Looking the token sequence up in the trie
  afterwards returns a node whose labels contain that label with that score; the node
  holds exactly the labels inserted with that very token sequence, in insertion order,
  so that the pronunciations of a word are independent paths.
\<close>

theorem lexicon_round_trip:
  assumes "construct fl df ex = (evs, Inr c)" and "FLAGS_lexicon fl \<noteq> []"
    and "(word, prons) \<in> set (loadWords ex)" and "tokens \<in> set prons"
  shows "\<exists>t n. c_trie c = Some t \<and> tokens2Tensor ex tokens \<noteq> [] \<and>
           TrieInsert (tokens2Tensor ex tokens) (fst (word_label fl ex (c_lm c) word))
             (snd (word_label fl ex (c_lm c) word)) \<in> set evs \<and>
           fst (word_label fl ex (c_lm c) word) =
             \<lparr>lmIndex = (if FLAGS_decodertype fl = ''wrd'' then lm_index (c_lm c) word else - 1),
              wordIndex = getIndex (wordDict ex) word\<rparr> \<and>
           snd (word_label fl ex (c_lm c) word) =
             (if FLAGS_decodertype fl = ''wrd''
              then snd (lm_score (c_lm c) (lm_start (c_lm c) False) (lm_index (c_lm c) word))
              else - 1) \<and>
           trie_search t (tokens2Tensor ex tokens) = Some n \<and>
           word_label fl ex (c_lm c) word \<in> set (labels n) \<and>
           labels n = inserted_at evs (tokens2Tensor ex tokens)"
proof -
  let ?lm = "c_lm c"
  let ?tt = "tokens2Tensor ex tokens"
  let ?ls = "word_label fl ex ?lm word"
  let ?t0 = "newTrie (indexSize (tokenDict ex)) (getIndex (tokenDict ex) (kSilToken df))"
  from construct_Inr [OF assms(1)]
  have bt: "build_trie fl df ex ?lm (getIndex (tokenDict ex) (kSilToken df))
            (lm_index ?lm (kUnkToken df)) = (evs, Inr (c_trie c, c_unk c))"
    by simp
  obtain pevs pr where pl: "plant_lexicon fl ex ?lm (loadWords ex) ?t0 = (pevs, pr)"
    by (cases "plant_lexicon fl ex ?lm (loadWords ex) ?t0")
  from bt assms(2) pl obtain t m where pr: "pr = Inr t"
    and evs: "evs = pevs @ [TrieSmear m]" and tr: "c_trie c = Some (trie_smear t m)"
    by (auto simp: build_trie_def Let_def split: sum.splits)
  from plant_lexicon_events [OF pl] pr
  have pevs: "pevs = lexicon_inserts fl ex ?lm (loadWords ex)" by simp
  from plant_lexicon_labels [of fl ex ?lm "loadWords ex" ?t0 pevs t ?tt] pl pr
  have lab: "labels_at (trie_root t) ?tt = inserted_at pevs ?tt"
    and ne: "\<forall>it\<in>set (loadWords ex). \<forall>tokens\<in>set (snd it). tokens2Tensor ex tokens \<noteq> []"
    by (simp_all add: newTrie_def labels_at_emptyNode)
  from assms(3,4) have ins: "TrieInsert ?tt (fst ?ls) (snd ?ls) \<in> set pevs"
    unfolding pevs lexicon_inserts_member by blast
  from inserted_at_member [OF ins] lab
  have mem: "?ls \<in> set (labels_at (trie_root t) ?tt)" by simp
  from labels_at_search [OF mem] obtain n where
    n: "searchNode (trie_root t) ?tt = Some n" "labels n = labels_at (trie_root t) ?tt"
    by blast
  have 1: "trie_search (trie_smear t m) ?tt = Some n"
    using n by (simp add: trie_search_def trie_smear_def)
  have 2: "?ls \<in> set (labels n)" using mem n by simp
  have 3: "labels n = inserted_at evs ?tt"
    using n lab evs by (simp add: inserted_at_smear)
  have 4: "?tt \<noteq> []" using ne assms(3,4) by force
  have 5: "TrieInsert ?tt (fst ?ls) (snd ?ls) \<in> set evs" using ins evs by simp
  have 6: "fst ?ls =
             \<lparr>lmIndex = (if FLAGS_decodertype fl = ''wrd'' then lm_index ?lm word else - 1),
              wordIndex = getIndex (wordDict ex) word\<rparr>"
    "snd ?ls = (if FLAGS_decodertype fl = ''wrd''
              then snd (lm_score ?lm (lm_start ?lm False) (lm_index ?lm word)) else - 1)"
    by (simp_all add: word_label_def)
  from tr 1 2 3 4 5 6 show ?thesis by blast
qed

theorem lexicon_round_trip_witness:
  "\<exists>evs c t n. construct small_flags w2l_defines small_ex = (evs, Inr c) \<and>
      c_trie c = Some t \<and> trie_search t [0, 1] = Some n \<and>
      (\<lparr>lmIndex = 7, wordIndex = 0\<rparr>, - 2) \<in> set (labels n) \<and>
      labels n = inserted_at evs [0, 1]"
proof -
  have "\<exists>evs c. construct small_flags w2l_defines small_ex = (evs, Inr c)"
    by (simp add: eval_defs nSamplePerThread_2_2)
  then obtain evs c where c: "construct small_flags w2l_defines small_ex = (evs, Inr c)"
    by blast
  have lm: "build_lm small_flags small_ex = Inr unigram_lm"
    by (simp add: build_lm_def make_shared_def small_flags_def small_ex_def)
  with construct_Inr [OF c] have clm: "c_lm c = unigram_lm" by simp
  have lex: "FLAGS_lexicon small_flags \<noteq> []" by (simp add: small_flags_def)
  have w: "(''ab'', [[''a'', ''b'']]) \<in> set (loadWords small_ex)" "[''a'', ''b''] \<in> set [[''a'', ''b'']]"
    by (simp_all add: small_ex_def)
  have tt: "tokens2Tensor small_ex [''a'', ''b''] = [0, 1]"
    by (simp add: small_ex_def abc_dict_def)
  have wl: "word_label small_flags small_ex unigram_lm ''ab'' = (\<lparr>lmIndex = 7, wordIndex = 0\<rparr>, - 2)"
    by (simp add: word_label_def small_flags_def small_ex_def unigram_lm_def word_dict_def)
  from lexicon_round_trip [OF c lex w] clm tt wl
  obtain t n where "c_trie c = Some t" "trie_search t [0, 1] = Some n"
    "(\<lparr>lmIndex = 7, wordIndex = 0\<rparr>, - 2) \<in> set (labels n)" "labels n = inserted_at evs [0, 1]"
    by auto
  with c show ?thesis by blast
qed

text \<open>
  C7 as stated fails: with the decoder type \<^verbatim>\<open>"tkn"\<close> the label of the word
  \<^verbatim>\<open>ab\<close> carries \<open>-1\<close>, not the word's index 7 in the language model, and the
  word's second pronunciation, which has no token, is rejected by \<^verbatim>\<open>insert\<close>; the
  exception leaves \<^verbatim>\<open>main\<close> and no trie remains to be queried.
\<close>

theorem empty_pronunciation_and_token_decoder:
  "lm_index unigram_lm ''ab'' = 7 \<and>
   main_run (small_flags\<lparr>FLAGS_decodertype := ''tkn''\<rparr>) w2l_defines empty_pron_ex [0, 1] =
     \<lparr>p_status = Terminated (StdException ''[Trie] empty token sequence''),
      p_events = [TrieInsert [0, 1] \<lparr>lmIndex = - 1, wordIndex = 0\<rparr> (- 1),
                  TrieInsert [] \<lparr>lmIndex = - 1, wordIndex = 0\<rparr> (- 1)],
      p_phases = []\<rparr>"
  by (simp add: eval_defs empty_pron_ex_def)

subsection \<open>The slices of the workers\<close>

text \<open>
  C4 does not hold of the driver for every \<^verbatim>\<open>nSample\<close>. The number of samples per
  thread is computed in single precision: with \<open>16777217 = 2 ^ 24 + 1\<close> samples and
  two threads, \<^verbatim>\<open>nSample\<close> becomes the float \<open>16777216\<close>, each thread gets
  \<open>8388608\<close> samples, the loop of lines 441-448 ends after the second thread, and the
  sample with index \<open>16777216\<close> is handed to no worker.
\<close>

theorem float_rounding_drops_last_sample:
  "nSamplePerThread 16777217 2 = 8388608 \<and>
   startThreads small_flags 16777217 (nSamplePerThread 16777217 2) =
     Inr [\<lparr>w_tid = 0, w_start = 0, w_end = 8388608\<rparr>,
          \<lparr>w_tid = 1, w_start = 8388608, w_end = 16777216\<rparr>] \<and>
   filter (\<lambda>w. w_start w \<le> 16777216 \<and> 16777216 < w_end w)
     [\<lparr>w_tid = 0, w_start = 0, w_end = 8388608\<rparr>,
      \<lparr>w_tid = 1, w_start = 8388608, w_end = 16777216\<rparr>] = []"
  by (simp add: nSamplePerThread_beyond startThreads_def small_flags_def spread.simps)

end
